theory Spec2Isabelle
  imports Main "HOL-Library.Word" "HOL-Library.AList"
begin

section \<open>The externally visible tree: \<^verbatim>\<open>FileSystemItem\<close>\<close>

text \<open>
  The node type every component exchanges (\<^verbatim>\<open>src/types/forensic.ts\<close>, with the metadata
  fields the parser, the search engine and the export engine really read and write).
  A \<^verbatim>\<open>Date\<close> is its time value, in milliseconds since the Unix epoch. Numbers are
  natural numbers or integers; strings are lists of 8-bit characters. Optional fields
  are \<open>option\<close>s: \<open>children = None\<close> is the absent field of a node that is no
  container, \<open>Some []\<close> the empty array of a directory.
\<close>

type_synonym jsdate = int

datatype item_type = File | Directory | Partition | Image

record refs_hint =
  refs_blockNumber :: nat
  refs_entryIndex :: nat
  refs_btreeLevel :: nat

record item_metadata =
  meta_fileId :: nat
  meta_parentId :: nat
  meta_attributes :: nat
  meta_isDeleted :: bool
  meta_md5Hash :: "string option"
  meta_sha1Hash :: "string option"
  meta_refs :: refs_hint

record item_info =
  item_id :: string
  name :: string
  itype :: item_type
  item_size :: nat
  created :: jsdate
  modified :: jsdate
  accessed :: jsdate
  path :: string
  metadata :: "item_metadata option"

datatype FileSystemItem =
  FileSystemItem (info: item_info) (children: "FileSystemItem list option")

text \<open>\<^verbatim>\<open>item.metadata?.isDeleted\<close>, read as a condition.\<close>

definition isDeleted :: "item_info \<Rightarrow> bool" where
  "isDeleted nfo = (case metadata nfo of None \<Rightarrow> False | Some m \<Rightarrow> meta_isDeleted m)"

section \<open>The export engine\<close>

datatype export_format = Json | Csv | Xml | Html

record ExportOptions =
  format :: export_format
  includeMetadata :: bool
  includeDeleted :: bool
  includeHashes :: bool
  flattenStructure :: bool

text \<open>
  \<^verbatim>\<open>countItems\<close>: the closure \<^verbatim>\<open>countRecursive\<close> increments the captured counter
  once for every item and descends into \<^verbatim>\<open>item.children\<close> when the field is present.
  The counter is passed along and returned.
\<close>

fun countRecursive :: "FileSystemItem list \<Rightarrow> nat \<Rightarrow> nat" where
  "countRecursive [] count = count"
| "countRecursive (FileSystemItem nfo None # rest) count =
     countRecursive rest (count + 1)"
| "countRecursive (FileSystemItem nfo (Some cs) # rest) count =
     countRecursive rest (countRecursive cs (count + 1))"

definition countItems :: "FileSystemItem list \<Rightarrow> nat" where
  "countItems items = countRecursive items 0"

text \<open>
  \<^verbatim>\<open>flattenItems\<close>: the closure \<^verbatim>\<open>flatten\<close> pushes an item onto the captured array
  \<^verbatim>\<open>flattened\<close> when deleted items are included or the item is not deleted, and
  descends into the children of every item, pushed or not.
\<close>

fun flatten :: "ExportOptions \<Rightarrow> FileSystemItem list \<Rightarrow> FileSystemItem list \<Rightarrow> FileSystemItem list" where
  "flatten opts [] flattened = flattened"
| "flatten opts (FileSystemItem nfo None # rest) flattened =
     flatten opts rest
       (if includeDeleted opts \<or> \<not> isDeleted nfo
        then flattened @ [FileSystemItem nfo None] else flattened)"
| "flatten opts (FileSystemItem nfo (Some cs) # rest) flattened =
     flatten opts rest
       (flatten opts cs
         (if includeDeleted opts \<or> \<not> isDeleted nfo
          then flattened @ [FileSystemItem nfo (Some cs)] else flattened))"

definition flattenItems :: "FileSystemItem list \<Rightarrow> ExportOptions \<Rightarrow> FileSystemItem list" where
  "flattenItems items opts = flatten opts items []"

text \<open>
  \<^verbatim>\<open>processItems\<close>: \<^verbatim>\<open>items.filter(...).map(...)\<close>. A filtered-out item is left out
  with its whole subtree. The processed object gets a \<^verbatim>\<open>metadata\<close> block and a
  \<^verbatim>\<open>hashes\<close> block when the option asks for it and the item has metadata, and a
  \<^verbatim>\<open>children\<close> field only when the item has at least one child. The derived field
  \<^verbatim>\<open>sizeFormatted\<close> (floating-point formatting) is left out, and the three dates are
  kept as time values instead of ISO strings.
\<close>

record processed_metadata =
  pm_fileId :: nat
  pm_parentId :: nat
  pm_attributes :: nat
  pm_isDeleted :: bool
  pm_refs :: refs_hint

record processed_info =
  p_id :: string
  p_name :: string
  p_type :: item_type
  p_size :: nat
  p_path :: string
  p_created :: jsdate
  p_modified :: jsdate
  p_accessed :: jsdate
  p_metadata :: "processed_metadata option"
  p_hashes :: "(string option \<times> string option) option"

datatype ProcessedItem =
  ProcessedItem (p_info: processed_info) (p_children: "ProcessedItem list option")

definition processedInfo :: "item_info \<Rightarrow> ExportOptions \<Rightarrow> processed_info" where
  "processedInfo nfo opts =
     \<lparr> p_id = item_id nfo, p_name = name nfo, p_type = itype nfo, p_size = item_size nfo,
       p_path = path nfo, p_created = created nfo, p_modified = modified nfo,
       p_accessed = accessed nfo,
       p_metadata =
         (case metadata nfo of
            None \<Rightarrow> None
          | Some m \<Rightarrow>
              if includeMetadata opts
              then Some \<lparr> pm_fileId = meta_fileId m, pm_parentId = meta_parentId m,
                          pm_attributes = meta_attributes m, pm_isDeleted = meta_isDeleted m,
                          pm_refs = meta_refs m \<rparr>
              else None),
       p_hashes =
         (case metadata nfo of
            None \<Rightarrow> None
          | Some m \<Rightarrow>
              if includeHashes opts then Some (meta_md5Hash m, meta_sha1Hash m) else None) \<rparr>"

fun processItems :: "FileSystemItem list \<Rightarrow> ExportOptions \<Rightarrow> ProcessedItem list" where
  "processItems [] opts = []"
| "processItems (FileSystemItem nfo None # rest) opts =
     (if includeDeleted opts \<or> \<not> isDeleted nfo
      then ProcessedItem (processedInfo nfo opts) None # processItems rest opts
      else processItems rest opts)"
| "processItems (FileSystemItem nfo (Some cs) # rest) opts =
     (if includeDeleted opts \<or> \<not> isDeleted nfo
      then ProcessedItem (processedInfo nfo opts)
             (if 0 < length cs then Some (processItems cs opts) else None)
           # processItems rest opts
      else processItems rest opts)"

text \<open>
  \<^verbatim>\<open>exportToJson\<close>, which \<^verbatim>\<open>export\<close> calls for the format tag \<^verbatim>\<open>json\<close>, builds
  the envelope \<^verbatim>\<open>exportData\<close> and serialises it with \<^verbatim>\<open>JSON.stringify\<close>. The model is
  the envelope object; \<open>clock\<close> is the value of \<^verbatim>\<open>new Date()\<close>.
\<close>

datatype exported_tree = Flat "FileSystemItem list" | Nested "ProcessedItem list"

record export_info =
  timestamp :: jsdate
  info_format :: string
  info_options :: ExportOptions
  totalItems :: nat

record export_data =
  exportInfo :: export_info
  fileSystem :: exported_tree

definition exportToJson :: "FileSystemItem list \<Rightarrow> jsdate \<Rightarrow> ExportOptions \<Rightarrow> export_data" where
  "exportToJson items clock opts =
     \<lparr> exportInfo = \<lparr> timestamp = clock, info_format = ''json'', info_options = opts,
                       totalItems = countItems items \<rparr>,
       fileSystem = (if flattenStructure opts then Flat (flattenItems items opts)
                     else Nested (processItems items opts)) \<rparr>"

text \<open>
  What the claims compare the code with: the pre-order listing of a forest (a node, then
  the listing of its children, then its later siblings), and the number of nodes of a
  processed tree, counted by full descent.
\<close>

fun preorder :: "FileSystemItem list \<Rightarrow> FileSystemItem list" where
  "preorder [] = []"
| "preorder (FileSystemItem nfo None # rest) = FileSystemItem nfo None # preorder rest"
| "preorder (FileSystemItem nfo (Some cs) # rest) =
     FileSystemItem nfo (Some cs) # preorder cs @ preorder rest"

fun countProcessed :: "ProcessedItem list \<Rightarrow> nat" where
  "countProcessed [] = 0"
| "countProcessed (ProcessedItem nfo None # rest) = 1 + countProcessed rest"
| "countProcessed (ProcessedItem nfo (Some cs) # rest) =
     1 + countProcessed cs + countProcessed rest"

text \<open>
  The number of nodes of what \<^verbatim>\<open>exportToJson\<close> puts into \<^verbatim>\<open>fileSystem\<close>, by full
  descent: a flat list holds the items themselves, which still carry their children.
\<close>

definition exportedCount :: "exported_tree \<Rightarrow> nat" where
  "exportedCount t = (case t of Nested ps \<Rightarrow> countProcessed ps | Flat xs \<Rightarrow> countItems xs)"

section \<open>The parser: reading the buffer\<close>

text \<open>
  The image is a fixed byte buffer. A \<^verbatim>\<open>DataView\<close> getter and the \<^verbatim>\<open>Uint8Array\<close>
  constructor throw a \<^verbatim>\<open>RangeError\<close> when the bytes they cover do not all lie inside
  the buffer; \<^verbatim>\<open>parseMetadataTable\<close> and \<^verbatim>\<open>traverseBTree\<close> throw when no superblock
  was parsed. Offsets are products and sums of unsigned 32-bit fields: the model computes
  them as natural numbers (a double is exact up to \<open>2^53\<close>, and a larger offset is
  outside every buffer whether rounded or not).
\<close>

type_synonym byte = "8 word"

type_synonym buffer = "byte list"

datatype error = RangeError | SuperblockNotParsed

definition andThen :: "error + 'a \<Rightarrow> ('a \<Rightarrow> error + 'b) \<Rightarrow> error + 'b" where
  "andThen m f = (case m of Inl e \<Rightarrow> Inl e | Inr x \<Rightarrow> f x)"

text \<open>The value of a little-endian byte sequence.\<close>

fun littleEndian :: "byte list \<Rightarrow> nat" where
  "littleEndian [] = 0"
| "littleEndian (b # bs) = unat b + 256 * littleEndian bs"

definition getUint :: "nat \<Rightarrow> buffer \<Rightarrow> nat \<Rightarrow> error + nat" where
  "getUint width buf offset =
     (if offset + width \<le> length buf then Inr (littleEndian (take width (drop offset buf)))
      else Inl RangeError)"

definition getUint16 :: "buffer \<Rightarrow> nat \<Rightarrow> error + nat" where
  "getUint16 = getUint 2"

definition getUint32 :: "buffer \<Rightarrow> nat \<Rightarrow> error + nat" where
  "getUint32 = getUint 4"

definition getBigUint64 :: "buffer \<Rightarrow> nat \<Rightarrow> error + nat" where
  "getBigUint64 = getUint 8"

definition bytesAt :: "buffer \<Rightarrow> nat \<Rightarrow> nat \<Rightarrow> error + byte list" where
  "bytesAt buf offset len =
     (if offset + len \<le> length buf then Inr (take len (drop offset buf)) else Inl RangeError)"

text \<open>
  \<^verbatim>\<open>readString\<close> decodes with the label \<^verbatim>\<open>ascii\<close>: one character for every byte.
  \<^verbatim>\<open>readUnicodeString\<close> decodes UTF-16LE; the platform's decoder is a parameter.
\<close>

definition readString :: "buffer \<Rightarrow> nat \<Rightarrow> nat \<Rightarrow> error + string" where
  "readString buf offset len =
     andThen (bytesAt buf offset len) (\<lambda>bytes. Inr (map (\<lambda>b. char_of (unat b)) bytes))"

text \<open>
  What the parser takes from the platform: the clock (\<^verbatim>\<open>new Date()\<close>), the UTF-16LE
  \<^verbatim>\<open>TextDecoder\<close>, and the creation and modification times the sample generator draws
  with \<^verbatim>\<open>Math.random()\<close> for the sample entry of a given identifier.
\<close>

record platform =
  now :: jsdate
  decodeUtf16le :: "byte list \<Rightarrow> string"
  mockTimes :: "nat \<Rightarrow> jsdate \<times> jsdate"

definition readUnicodeString :: "platform \<Rightarrow> buffer \<Rightarrow> nat \<Rightarrow> nat \<Rightarrow> error + string" where
  "readUnicodeString pf buf offset len =
     andThen (bytesAt buf offset (len * 2)) (\<lambda>bytes. Inr (decodeUtf16le pf bytes))"

definition hexDigit :: "nat \<Rightarrow> char" where
  "hexDigit n = ''0123456789abcdef'' ! (n mod 16)"

definition readGuid :: "buffer \<Rightarrow> nat \<Rightarrow> error + string" where
  "readGuid buf offset =
     andThen (bytesAt buf offset 16) (\<lambda>bytes.
       let hex = concat (map (\<lambda>b. [hexDigit (unat b div 16), hexDigit (unat b)]) bytes) in
       Inr (take 8 hex @ ''-'' @ take 4 (drop 8 hex) @ ''-'' @ take 4 (drop 12 hex) @ ''-''
            @ take 4 (drop 16 hex) @ ''-'' @ take 12 (drop 20 hex)))"

text \<open>
  \<^verbatim>\<open>readFileTime\<close>: \<^verbatim>\<open>Number(filetime) / 10000 - 11644473600000\<close>, made a \<^verbatim>\<open>Date\<close>
  (which truncates towards zero). The model computes in exact arithmetic; the rounding
  of the double-precision operations is not modelled.
\<close>

definition readFileTime :: "buffer \<Rightarrow> nat \<Rightarrow> error + jsdate" where
  "readFileTime buf offset =
     andThen (getBigUint64 buf offset) (\<lambda>filetime.
       Inr (if 116444736000000000 \<le> filetime
            then int ((filetime - 116444736000000000) div 10000)
            else - int ((116444736000000000 - filetime) div 10000)))"

text \<open>\<^verbatim>\<open>String.prototype.includes\<close>.\<close>

fun str_includes :: "string \<Rightarrow> string \<Rightarrow> bool" where
  "str_includes [] sub = (sub = [])"
| "str_includes (c # cs) sub = (take (length sub) (c # cs) = sub \<or> str_includes cs sub)"

section \<open>The parser: superblock, record store and tree walker\<close>

record RefsSuperblocK =
  signature :: string
  version :: nat
  blockSize :: nat
  sectorsPerBlock :: nat
  bytesPerSector :: nat
  totalBlocks :: nat
  rootDirectoryBlock :: nat
  metadataTableBlock :: nat
  checkpointBlock :: nat
  volumeId :: string
  creationTime :: jsdate
  lastMountTime :: jsdate

record FileRecord =
  fileId :: nat
  parentId :: nat
  fileName :: string
  fileSize :: nat
  attributes :: nat
  rec_creationTime :: jsdate
  modificationTime :: jsdate
  accessTime :: jsdate
  isDirectory :: bool
  rec_isDeleted :: bool
  md5Hash :: "string option"
  sha1Hash :: "string option"

text \<open>
  The parser's fields. \<^verbatim>\<open>fileRecords\<close> is a \<^verbatim>\<open>Map\<close>: an association list in insertion
  order, where setting a key that is present replaces the value in place
  (\<open>AList.update\<close>).
\<close>

record parser =
  superblock :: "RefsSuperblocK option"
  fileRecords :: "(nat \<times> FileRecord) list"

definition newParser :: parser where
  "newParser = \<lparr> superblock = None, fileRecords = [] \<rparr>"

text \<open>\<^verbatim>\<open>new Date('2024-01-01T00:00:00Z')\<close>.\<close>

definition epoch2024 :: jsdate where
  "epoch2024 = 1704067200000"

definition createMockSuperblock :: "platform \<Rightarrow> buffer \<Rightarrow> RefsSuperblocK" where
  "createMockSuperblock pf buf =
     \<lparr> signature = ''ReFS (Mock)'',
       version = 3,
       blockSize = 4096,
       sectorsPerBlock = 8,
       bytesPerSector = 512,
       totalBlocks = (if length buf div 4096 = 0 then 1000 else length buf div 4096),
       rootDirectoryBlock = 10,
       metadataTableBlock = 20,
       checkpointBlock = 30,
       volumeId = ''12345678-1234-5678-9abc-123456789abc'',
       creationTime = epoch2024,
       lastMountTime = now pf \<rparr>"

definition hasRefsSignature :: "string \<Rightarrow> bool" where
  "hasRefsSignature sig = (str_includes sig ''ReFS'' \<or> str_includes sig ''REFS'')"

text \<open>The signature field: the eight bytes at the superblock offset, decoded.\<close>

definition signatureField :: "buffer \<Rightarrow> string" where
  "signatureField buf = map (\<lambda>b. char_of (unat b)) (take 8 (drop 0x1E00 buf))"

definition parseSuperblock :: "platform \<Rightarrow> buffer \<Rightarrow> parser \<Rightarrow> error + parser" where
  "parseSuperblock pf buf st =
     (let superblockOffset = 0x1E00 in
      if length buf < superblockOffset + 512
      then Inr (st\<lparr>superblock := Some (createMockSuperblock pf buf)\<rparr>)
      else
        andThen (readString buf superblockOffset 8) (\<lambda>sig.
        if \<not> hasRefsSignature sig
        then Inr (st\<lparr>superblock := Some (createMockSuperblock pf buf)\<rparr>)
        else
          andThen (getUint32 buf (superblockOffset + 8)) (\<lambda>v.
          andThen (getUint32 buf (superblockOffset + 12)) (\<lambda>bs.
          andThen (getUint32 buf (superblockOffset + 16)) (\<lambda>spb.
          andThen (getUint32 buf (superblockOffset + 20)) (\<lambda>bps.
          andThen (getUint32 buf (superblockOffset + 24)) (\<lambda>tb.
          andThen (getUint32 buf (superblockOffset + 28)) (\<lambda>rdb.
          andThen (getUint32 buf (superblockOffset + 32)) (\<lambda>mtb.
          andThen (getUint32 buf (superblockOffset + 36)) (\<lambda>cpb.
          andThen (readGuid buf (superblockOffset + 40)) (\<lambda>vid.
          andThen (readFileTime buf (superblockOffset + 56)) (\<lambda>ct.
          andThen (readFileTime buf (superblockOffset + 64)) (\<lambda>lmt.
            Inr (st\<lparr>superblock := Some
              \<lparr> signature = sig, version = v, blockSize = bs, sectorsPerBlock = spb,
                bytesPerSector = bps, totalBlocks = tb, rootDirectoryBlock = rdb,
                metadataTableBlock = mtb, checkpointBlock = cpb, volumeId = vid,
                creationTime = ct, lastMountTime = lmt \<rparr>\<rparr>))))))))))))))"

text \<open>
  \<^verbatim>\<open>parseFileRecord\<close> decodes the record at an offset and stores it under its
  identifier. The directory flag is bit 4 of the attributes (\<^verbatim>\<open>0x10\<close>), the deleted
  flag bit 31 (\<^verbatim>\<open>0x80000000\<close>). The name is read last: a name length that reaches past
  the buffer throws.
\<close>

definition parseFileRecord :: "platform \<Rightarrow> buffer \<Rightarrow> nat \<Rightarrow> parser \<Rightarrow> error + parser" where
  "parseFileRecord pf buf offset st =
     andThen (getUint32 buf (offset + 8)) (\<lambda>fid.
     andThen (getUint32 buf (offset + 12)) (\<lambda>pid.
     andThen (getUint32 buf (offset + 16)) (\<lambda>attrs.
     andThen (getBigUint64 buf (offset + 20)) (\<lambda>fsize.
     andThen (readFileTime buf (offset + 28)) (\<lambda>ctime.
     andThen (readFileTime buf (offset + 36)) (\<lambda>mtime.
     andThen (readFileTime buf (offset + 44)) (\<lambda>atime.
     andThen (getUint16 buf (offset + 52)) (\<lambda>fileNameLength.
     andThen (readUnicodeString pf buf (offset + 54) fileNameLength) (\<lambda>fname.
       Inr (st\<lparr>fileRecords := AList.update fid
         \<lparr> fileId = fid, parentId = pid, fileName = fname, fileSize = fsize,
           attributes = attrs, rec_creationTime = ctime, modificationTime = mtime,
           accessTime = atime, isDirectory = bit attrs 4, rec_isDeleted = bit attrs 31,
           md5Hash = None, sha1Hash = None \<rparr>
         (fileRecords st)\<rparr>))))))))))"

text \<open>
  \<^verbatim>\<open>generateMockFileSystem\<close>: the root directory, then the twenty entries of
  \<^verbatim>\<open>mockStructure\<close> (identifier, parent, name, directory flag, size, deleted flag).
\<close>

definition mockStructure :: "(nat \<times> nat \<times> string \<times> bool \<times> nat \<times> bool) list" where
  "mockStructure =
     [(2, 1, ''Windows'', True, 0, False),
      (3, 1, ''Program Files'', True, 0, False),
      (4, 1, ''Users'', True, 0, False),
      (5, 1, ''System Volume Information'', True, 0, False),
      (6, 2, ''System32'', True, 0, False),
      (7, 2, ''SysWOW64'', True, 0, False),
      (8, 6, ''kernel32.dll'', False, 1024000, False),
      (9, 6, ''ntdll.dll'', False, 2048000, False),
      (10, 6, ''user32.dll'', False, 1536000, False),
      (11, 4, ''Administrator'', True, 0, False),
      (12, 4, ''Public'', True, 0, False),
      (13, 11, ''Desktop'', True, 0, False),
      (14, 11, ''Documents'', True, 0, False),
      (15, 13, ''shortcut.lnk'', False, 2048, False),
      (16, 14, ''report.docx'', False, 524288, False),
      (17, 14, ''data.xlsx'', False, 1048576, False),
      (18, 1, ''$Recycle.Bin'', True, 0, False),
      (19, 18, ''deleted_file.txt'', False, 4096, True),
      (20, 3, ''Microsoft Office'', True, 0, False),
      (21, 20, ''WINWORD.EXE'', False, 15728640, False)]"

definition mockRecord :: "platform \<Rightarrow> nat \<times> nat \<times> string \<times> bool \<times> nat \<times> bool \<Rightarrow> FileRecord" where
  "mockRecord pf e =
     (case e of (i, parent, nm, isDir, sz, deleted) \<Rightarrow>
        \<lparr> fileId = i, parentId = parent, fileName = nm, fileSize = sz,
          attributes = (if isDir then 0x10 else 0x20),
          rec_creationTime = fst (mockTimes pf i),
          modificationTime = snd (mockTimes pf i),
          accessTime = snd (mockTimes pf i),
          isDirectory = isDir, rec_isDeleted = deleted,
          md5Hash = None, sha1Hash = None \<rparr>)"

definition generateMockFileSystem :: "platform \<Rightarrow> parser \<Rightarrow> parser" where
  "generateMockFileSystem pf st =
     st\<lparr>fileRecords :=
       foldl (\<lambda>m e. AList.update (fst e) (mockRecord pf e) m)
         (AList.update 1
            \<lparr> fileId = 1, parentId = 0, fileName = [], fileSize = 0, attributes = 0x10,
              rec_creationTime = epoch2024, modificationTime = now pf, accessTime = now pf,
              isDirectory = True, rec_isDeleted = False, md5Hash = None, sha1Hash = None \<rparr>
            (fileRecords st))
         mockStructure\<rparr>"

text \<open>
  The scan of \<^verbatim>\<open>parseMetadataTable\<close>:
  \<^verbatim>\<open>for (i = 0; i < 1000 && currentOffset < byteLength - 128; i++)\<close>.
\<close>

function metadataLoop :: "platform \<Rightarrow> buffer \<Rightarrow> nat \<Rightarrow> nat \<Rightarrow> parser \<Rightarrow> error + parser" where
  "metadataLoop pf buf i currentOffset st =
     (if i < 1000 \<and> int currentOffset < int (length buf) - 128
      then
        andThen (getUint32 buf currentOffset) (\<lambda>entryType.
        andThen (getUint32 buf (currentOffset + 4)) (\<lambda>entrySize.
        andThen (if entryType = 0x30 then parseFileRecord pf buf currentOffset st else Inr st)
          (\<lambda>st'. metadataLoop pf buf (i + 1) (currentOffset + max entrySize 128) st')))
      else Inr st)"
  by pat_completeness auto
termination
  by (relation "measure (\<lambda>(pf, buf, i, currentOffset, st). 1000 - i)") auto

declare metadataLoop.simps [simp del]

definition parseMetadataTable :: "platform \<Rightarrow> buffer \<Rightarrow> parser \<Rightarrow> error + parser" where
  "parseMetadataTable pf buf st =
     (case superblock st of
        None \<Rightarrow> Inl SuperblockNotParsed
      | Some sb \<Rightarrow>
          let metadataOffset = metadataTableBlock sb * blockSize sb in
          if length buf < metadataOffset + 1024 \<or> str_includes (signature sb) ''Mock''
          then Inr (generateMockFileSystem pf st)
          else
            andThen (metadataLoop pf buf 0 metadataOffset st) (\<lambda>st'.
              if length (fileRecords st') = 0 then Inr (generateMockFileSystem pf st')
              else Inr st'))"

text \<open>
  The leaf loop of \<^verbatim>\<open>traverseBTreeNode\<close>:
  \<^verbatim>\<open>for (i = 0; i < keyCount && i < 100; i++)\<close>.
\<close>

function leafLoop :: "platform \<Rightarrow> buffer \<Rightarrow> nat \<Rightarrow> nat \<Rightarrow> nat \<Rightarrow> parser \<Rightarrow> error + parser" where
  "leafLoop pf buf keyCount i entryOffset st =
     (if i < keyCount \<and> i < 100
      then
        andThen (getUint16 buf entryOffset) (\<lambda>entrySize.
        andThen (if 0 < entrySize \<and> entrySize < 1024
                 then parseFileRecord pf buf entryOffset st else Inr st)
          (\<lambda>st'. leafLoop pf buf keyCount (i + 1) (entryOffset + max entrySize 32) st'))
      else Inr st)"
  by pat_completeness auto
termination
  by (relation "measure (\<lambda>(pf, buf, keyCount, i, entryOffset, st). 100 - i)") auto

declare leafLoop.simps [simp del]

text \<open>
  \<^verbatim>\<open>traverseBTreeNode(blockNumber, depth)\<close>, with the loop over the child pointers of an
  internal node (\<^verbatim>\<open>for (i = 0; i <= keyCount && i < 50; i++)\<close>) as a second function:
  the two call each other. The superblock is the one \<^verbatim>\<open>traverseBTree\<close> found, and
  \<^verbatim>\<open>blockSize || 4096\<close> takes 4096 for a block size of 0.
\<close>

function traverseBTreeNode ::
    "platform \<Rightarrow> buffer \<Rightarrow> RefsSuperblocK \<Rightarrow> nat \<Rightarrow> nat \<Rightarrow> parser \<Rightarrow> error + parser"
  and traverseChildren ::
    "platform \<Rightarrow> buffer \<Rightarrow> RefsSuperblocK \<Rightarrow> nat \<Rightarrow> nat \<Rightarrow> nat \<Rightarrow> nat \<Rightarrow> parser \<Rightarrow> error + parser"
where
  "traverseBTreeNode pf buf sb blockNumber depth st =
     (if 10 < depth then Inr st
      else
        let offset = blockNumber * (if blockSize sb = 0 then 4096 else blockSize sb) in
        if length buf \<le> offset then Inr st
        else
          andThen (getUint32 buf offset) (\<lambda>nodeHeader.
          andThen (getUint16 buf (offset + 4)) (\<lambda>keyCount.
            if bit nodeHeader 0
            then leafLoop pf buf keyCount 0 (offset + 16) st
            else traverseChildren pf buf sb (offset + 16 + keyCount * 8) keyCount depth 0 st)))"
| "traverseChildren pf buf sb childOffset keyCount depth i st =
     (if i \<le> keyCount \<and> i < 50
      then
        andThen (getUint32 buf (childOffset + i * 4)) (\<lambda>childBlock.
        andThen (if 0 < childBlock \<and> childBlock < totalBlocks sb
                 then traverseBTreeNode pf buf sb childBlock (depth + 1) st else Inr st)
          (\<lambda>st'. traverseChildren pf buf sb childOffset keyCount depth (i + 1) st'))
      else Inr st)"
  by pat_completeness auto
termination
  by (relation "measures
        [\<lambda>x. case x of
                Inl (pf, buf, sb, blockNumber, depth, st) \<Rightarrow> 2 * (11 - depth)
              | Inr (pf, buf, sb, childOffset, keyCount, depth, i, st) \<Rightarrow> 2 * (10 - depth) + 1,
         \<lambda>x. case x of
                Inl (pf, buf, sb, blockNumber, depth, st) \<Rightarrow> 0
              | Inr (pf, buf, sb, childOffset, keyCount, depth, i, st) \<Rightarrow> 50 - i]")
     auto

declare traverseBTreeNode.simps [simp del]

declare traverseChildren.simps [simp del]

definition traverseBTree :: "platform \<Rightarrow> buffer \<Rightarrow> parser \<Rightarrow> error + parser" where
  "traverseBTree pf buf st =
     (case superblock st of
        None \<Rightarrow> Inl SuperblockNotParsed
      | Some sb \<Rightarrow> traverseBTreeNode pf buf sb (rootDirectoryBlock sb) 0 st)"

section \<open>The hierarchy builder\<close>

text \<open>
  \<^verbatim>\<open>buildFileTree\<close> creates one item object for every record and then links the objects:
  it pushes an item onto the root array or onto the \<^verbatim>\<open>children\<close> array of its parent
  object, and writes its \<^verbatim>\<open>path\<close>. The objects are shared and mutated, so the model
  keeps them in a store: \<^verbatim>\<open>itemMap\<close> maps a file identifier to its object, and an
  array of items is the list of their identifiers. The result is the root array together
  with the store it points into.
\<close>

record node =
  node_info :: item_info
  node_children :: "nat list option"

record file_tree =
  rootItems :: "nat list"
  itemMap :: "(nat \<times> node) list"

text \<open>\<^verbatim>\<open>Number.prototype.toString\<close> of a natural number.\<close>

fun toString :: "nat \<Rightarrow> string" where
  "toString n =
     (if n < 10 then [''0123456789'' ! n]
      else toString (n div 10) @ [''0123456789'' ! (n mod 10)])"

text \<open>The object literal of the first loop.\<close>

definition newItem :: "nat \<Rightarrow> FileRecord \<Rightarrow> node" where
  "newItem fid r =
     \<lparr> node_info =
         \<lparr> item_id = toString fid,
           name = (if fileName r = [] then ''File_'' @ toString fid else fileName r),
           itype = (if isDirectory r then Directory else File),
           item_size = fileSize r,
           created = rec_creationTime r,
           modified = modificationTime r,
           accessed = accessTime r,
           path = [],
           metadata = Some
             \<lparr> meta_fileId = fid, meta_parentId = parentId r, meta_attributes = attributes r,
               meta_isDeleted = rec_isDeleted r, meta_md5Hash = md5Hash r,
               meta_sha1Hash = sha1Hash r,
               meta_refs = \<lparr> refs_blockNumber = fid div 1000, refs_entryIndex = fid mod 1000,
                             refs_btreeLevel = 0 \<rparr> \<rparr> \<rparr>,
       node_children = (if isDirectory r then Some [] else None) \<rparr>"

definition createItems :: "(nat \<times> FileRecord) list \<Rightarrow> (nat \<times> node) list" where
  "createItems recs = foldl (\<lambda>m (fid, r). AList.update fid (newItem fid r) m) [] recs"

definition setPath :: "string \<Rightarrow> node \<Rightarrow> node" where
  "setPath p item = item\<lparr>node_info := (node_info item)\<lparr>path := p\<rparr>\<rparr>"

text \<open>
  The body of the second loop, for the item stored under \<open>fid\<close>. The record and the item
  are present (the loop runs over the keys of \<^verbatim>\<open>itemMap\<close>, which are the keys of
  \<^verbatim>\<open>fileRecords\<close>); the model leaves the tree as it is otherwise. In the child branch
  the parent object is updated first and the item is read again afterwards, since an
  item that names itself as parent is the same object.
\<close>

definition linkItem :: "(nat \<times> FileRecord) list \<Rightarrow> file_tree \<Rightarrow> nat \<Rightarrow> file_tree" where
  "linkItem recs t fid =
     (case (map_of recs fid, map_of (itemMap t) fid) of
        (Some r, Some item) \<Rightarrow>
          if parentId r = 0 \<or> map_of (itemMap t) (parentId r) = None
          then \<lparr> rootItems = rootItems t @ [fid],
                 itemMap = AList.update fid
                   (setPath (''/'' @ name (node_info item)) item) (itemMap t) \<rparr>
          else
            (case map_of (itemMap t) (parentId r) of
               None \<Rightarrow> t
             | Some parent \<Rightarrow>
                 (case node_children parent of
                    None \<Rightarrow> t
                  | Some cs \<Rightarrow>
                      let m1 = AList.update (parentId r)
                                 (parent\<lparr>node_children := Some (cs @ [fid])\<rparr>) (itemMap t)
                      in (case map_of m1 fid of
                            None \<Rightarrow> t\<lparr>itemMap := m1\<rparr>
                          | Some item1 \<Rightarrow>
                              t\<lparr>itemMap := AList.update fid
                                (setPath (path (node_info parent) @ ''/'' @ name (node_info item1))
                                   item1) m1\<rparr>)))
      | _ \<Rightarrow> t)"

definition buildFileTree :: "(nat \<times> FileRecord) list \<Rightarrow> file_tree" where
  "buildFileTree recs =
     (let m = createItems recs in
      foldl (linkItem recs) \<lparr> rootItems = [], itemMap = m \<rparr> (map fst m))"

text \<open>
  Words for the structure of the result. The identifiers the builder has placed: the root
  array, followed by the children arrays of all objects of the store. The children array
  of the object stored under an identifier (\<open>None\<close> when there is no such object or it
  has no array), and its path. A record is a root record when its parent identifier is 0
  or not a key of the store; it is a child record of \<open>p\<close> when its parent identifier
  is \<open>p\<close> and not 0.
\<close>

definition placed :: "file_tree \<Rightarrow> nat list" where
  "placed t =
     rootItems t
     @ concat (map (\<lambda>e. case node_children (snd e) of None \<Rightarrow> [] | Some cs \<Rightarrow> cs) (itemMap t))"

definition childrenOf :: "file_tree \<Rightarrow> nat \<Rightarrow> nat list option" where
  "childrenOf t p = (case map_of (itemMap t) p of None \<Rightarrow> None | Some nd \<Rightarrow> node_children nd)"

definition pathOf :: "file_tree \<Rightarrow> nat \<Rightarrow> string" where
  "pathOf t k = (case map_of (itemMap t) k of None \<Rightarrow> [] | Some nd \<Rightarrow> path (node_info nd))"

definition nameOf :: "file_tree \<Rightarrow> nat \<Rightarrow> string" where
  "nameOf t k = (case map_of (itemMap t) k of None \<Rightarrow> [] | Some nd \<Rightarrow> name (node_info nd))"

definition isRootRecord :: "(nat \<times> FileRecord) list \<Rightarrow> nat \<Rightarrow> bool" where
  "isRootRecord recs k =
     (case map_of recs k of
        None \<Rightarrow> False
      | Some r \<Rightarrow> parentId r = 0 \<or> map_of recs (parentId r) = None)"

definition isChildRecord :: "(nat \<times> FileRecord) list \<Rightarrow> nat \<Rightarrow> nat \<Rightarrow> bool" where
  "isChildRecord recs p k =
     (case map_of recs k of None \<Rightarrow> False | Some r \<Rightarrow> parentId r = p \<and> p \<noteq> 0)"

definition isDirectoryRecord :: "(nat \<times> FileRecord) list \<Rightarrow> nat \<Rightarrow> bool" where
  "isDirectoryRecord recs k =
     (case map_of recs k of None \<Rightarrow> False | Some r \<Rightarrow> isDirectory r)"

text \<open>
  What holds of the tree while the second loop runs: the store has the keys of the record
  store, in its order, and an object has a children array exactly when its record is a
  directory.
\<close>

definition wellKeyed :: "(nat \<times> FileRecord) list \<Rightarrow> file_tree \<Rightarrow> bool" where
  "wellKeyed recs t \<longleftrightarrow>
     map fst (itemMap t) = map fst recs
     \<and> (\<forall>k nd r. map_of (itemMap t) k = Some nd \<longrightarrow> map_of recs k = Some r \<longrightarrow>
           (node_children nd = None \<longleftrightarrow> \<not> isDirectory r))"

text \<open>
  A store is parent-first when every child record of a directory record comes after that
  record. The paths of the nodes in a list of identifiers are linked when a root record
  has the path \<open>/\<close> + name and a child record of a directory has the path of the
  directory + \<open>/\<close> + name.
\<close>

definition parentFirst :: "(nat \<times> FileRecord) list \<Rightarrow> bool" where
  "parentFirst recs \<longleftrightarrow>
     (\<forall>k p. k \<in> set (map fst recs) \<longrightarrow> isChildRecord recs p k \<longrightarrow> isDirectoryRecord recs p \<longrightarrow>
        p \<in> set (takeWhile (\<lambda>x. x \<noteq> k) (map fst recs)))"

definition pathsLinked :: "(nat \<times> FileRecord) list \<Rightarrow> file_tree \<Rightarrow> nat list \<Rightarrow> bool" where
  "pathsLinked recs t ks \<longleftrightarrow>
     (\<forall>k\<in>set ks.
        (isRootRecord recs k \<longrightarrow> pathOf t k = ''/'' @ nameOf t k)
        \<and> (\<forall>p. isChildRecord recs p k \<longrightarrow> isDirectoryRecord recs p \<longrightarrow>
               pathOf t k = pathOf t p @ ''/'' @ nameOf t k))"

text \<open>The record store is a \<^verbatim>\<open>Map\<close>: no key occurs twice.\<close>

definition uniqueKeys :: "parser \<Rightarrow> bool" where
  "uniqueKeys st \<longleftrightarrow> distinct (map fst (fileRecords st))"

section \<open>The fingerprint stage and the pipeline\<close>

definition generateMockHash :: "bool \<Rightarrow> nat \<Rightarrow> string" where
  "generateMockHash isMd5 fid =
     (let len = (if isMd5 then 32 else 40); seed = fid * (if isMd5 then 31 else 37)
      in map (\<lambda>i. hexDigit (seed + i)) [0..<len])"

definition hashRecord :: "nat \<times> FileRecord \<Rightarrow> nat \<times> FileRecord" where
  "hashRecord e =
     (case e of (fid, r) \<Rightarrow>
        if \<not> isDirectory r \<and> 0 < fileSize r
        then (fid, r\<lparr>md5Hash := Some (generateMockHash True fid),
                      sha1Hash := Some (generateMockHash False fid)\<rparr>)
        else (fid, r))"

definition calculateHashes :: "parser \<Rightarrow> parser" where
  "calculateHashes st = st\<lparr>fileRecords := map hashRecord (fileRecords st)\<rparr>"

text \<open>
  \<^verbatim>\<open>parseImage\<close> runs the stages in order and returns the tree built before the hashes
  are computed; whatever a stage throws is caught and thrown again as
  \<^verbatim>\<open>ReFS parsing failed: ...\<close>. Its caller \<^verbatim>\<open>handleAddEvidence\<close> first asks
  \<^verbatim>\<open>validateRefsImage\<close> and throws \<^verbatim>\<open>File is empty or corrupted\<close> (the failure the
  specification calls \<^verbatim>\<open>EmptyInput\<close>) when it answers false.
\<close>

datatype failure = EmptyInput | ParsingFailed error

definition parseImage :: "platform \<Rightarrow> buffer \<Rightarrow> failure + file_tree" where
  "parseImage pf buf =
     (case andThen (parseSuperblock pf buf newParser) (\<lambda>st1.
           andThen (parseMetadataTable pf buf st1) (\<lambda>st2.
           andThen (traverseBTree pf buf st2) (\<lambda>st3.
             let fileTree = buildFileTree (fileRecords st3);
                 st4 = calculateHashes st3
             in Inr fileTree))) of
        Inl e \<Rightarrow> Inl (ParsingFailed e)
      | Inr fileTree \<Rightarrow> Inr fileTree)"

definition validateRefsImage :: "buffer \<Rightarrow> bool" where
  "validateRefsImage buf =
     (if length buf = 0 then False
      else if length buf < 8192 then True
      else if length buf < 0x1E00 + 8 then True
      else (case readString buf 0x1E00 4 of
              Inl e \<Rightarrow> True
            | Inr sig \<Rightarrow> if hasRefsSignature sig then True else True))"

definition handleAddEvidence :: "platform \<Rightarrow> buffer \<Rightarrow> failure + file_tree" where
  "handleAddEvidence pf buf =
     (if \<not> validateRefsImage buf then Inl EmptyInput else parseImage pf buf)"

section \<open>The search engine\<close>

record SearchOptions =
  query :: string
  caseSensitive :: bool
  useRegex :: bool
  searchInPath :: bool
  searchInContent :: bool
  fileTypes :: "string list"
  sizeMin :: "nat option"
  sizeMax :: "nat option"
  dateFrom :: "jsdate option"
  dateTo :: "jsdate option"
  so_includeDeleted :: bool
  hashSearch :: "string option"

datatype match_field = NameField | PathField | ContentField | HashField

record SearchMatch =
  m_field :: match_field
  m_value :: string
  startIndex :: nat
  endIndex :: nat

record SearchResult =
  r_item :: FileSystemItem
  r_matches :: "SearchMatch list"
  r_score :: int

subsection \<open>Strings\<close>

text \<open>
  \<^verbatim>\<open>toLowerCase\<close> on 8-bit characters: the letters A-Z, and the upper-case letters of
  Latin-1 (\<open>0xC0\<close> to \<open>0xDE\<close> without \<open>0xD7\<close>), move up by 32.
\<close>

definition lowerChar :: "char \<Rightarrow> char" where
  "lowerChar c =
     (let n = (of_char c :: nat) in
      if (65 \<le> n \<and> n \<le> 90) \<or> (192 \<le> n \<and> n \<le> 222 \<and> n \<noteq> 215) then char_of (n + 32) else c)"

definition toLowerCase :: "string \<Rightarrow> string" where
  "toLowerCase s = map lowerChar s"

text \<open>
  \<^verbatim>\<open>tokenize\<close>: \<^verbatim>\<open>text.split(/[\s\-_./\\]+/).filter(token => token.length > 0)\<close>, the
  maximal runs of characters that are not separators. The white space of \<^verbatim>\<open>\s\<close> among
  the 8-bit characters is tab, line feed, vertical tab, form feed, carriage return,
  space and the no-break space.
\<close>

definition isSeparator :: "char \<Rightarrow> bool" where
  "isSeparator c =
     ((of_char c :: nat) \<in> {9, 10, 11, 12, 13, 32, 160} \<or> c \<in> set ''-_./'' \<or> c = CHR 0x5C)"

fun splitTokens :: "string \<Rightarrow> string \<Rightarrow> string list" where
  "splitTokens [] cur = (if cur = [] then [] else [cur])"
| "splitTokens (c # cs) cur =
     (if isSeparator c then (if cur = [] then [] else [cur]) @ splitTokens cs []
      else splitTokens cs (cur @ [c]))"

definition tokenize :: "string \<Rightarrow> string list" where
  "tokenize text = splitTokens text []"

text \<open>
  \<^verbatim>\<open>text.indexOf(query, position)\<close>: the least index from the position on (which is
  clamped to the length of the text) where the query starts; \<open>None\<close> is \<open>-1\<close>.
\<close>

definition indexOf :: "string \<Rightarrow> string \<Rightarrow> nat \<Rightarrow> nat option" where
  "indexOf text q position =
     List.find (\<lambda>k. take (length q) (drop k text) = q)
       [min position (length text) ..< Suc (length text)]"

subsection \<open>The index\<close>

text \<open>
  \<^verbatim>\<open>searchIndex\<close> maps a token to an array of items. \<^verbatim>\<open>addToIndex\<close> pushes the item
  under every token of its lower-cased name and path, sets the bucket of each hash that
  is present and not empty to the item alone, and goes on with the children.
\<close>

type_synonym search_index = "string \<Rightarrow> FileSystemItem list option"

definition pushToken :: "FileSystemItem \<Rightarrow> search_index \<Rightarrow> string \<Rightarrow> search_index" where
  "pushToken it idx token =
     idx(token \<mapsto> (case idx token of None \<Rightarrow> [] | Some xs \<Rightarrow> xs) @ [it])"

definition setHash :: "FileSystemItem \<Rightarrow> string option \<Rightarrow> search_index \<Rightarrow> search_index" where
  "setHash it h idx =
     (case h of
        None \<Rightarrow> idx
      | Some hash \<Rightarrow> if hash = [] then idx else idx(toLowerCase hash \<mapsto> [it]))"

definition indexItem :: "FileSystemItem \<Rightarrow> search_index \<Rightarrow> search_index" where
  "indexItem it idx =
     (let idx1 = foldl (pushToken it) idx (tokenize (toLowerCase (name (info it))));
          idx2 = foldl (pushToken it) idx1 (tokenize (toLowerCase (path (info it))));
          idx3 = setHash it (case metadata (info it) of None \<Rightarrow> None | Some m \<Rightarrow> meta_md5Hash m) idx2
      in setHash it (case metadata (info it) of None \<Rightarrow> None | Some m \<Rightarrow> meta_sha1Hash m) idx3)"

fun addToIndex :: "FileSystemItem list \<Rightarrow> search_index \<Rightarrow> search_index" where
  "addToIndex [] idx = idx"
| "addToIndex (FileSystemItem nfo None # rest) idx =
     addToIndex rest (indexItem (FileSystemItem nfo None) idx)"
| "addToIndex (FileSystemItem nfo (Some cs) # rest) idx =
     addToIndex rest (addToIndex cs (indexItem (FileSystemItem nfo (Some cs)) idx))"

definition buildSearchIndex :: "FileSystemItem list \<Rightarrow> search_index" where
  "buildSearchIndex items = addToIndex items Map.empty"

subsection \<open>Matching\<close>

text \<open>
  The regular expressions of the platform are a parameter: \<open>compile\<close> is
  \<^verbatim>\<open>new RegExp(query, 'gi')\<close>, with \<open>None\<close> for the \<^verbatim>\<open>SyntaxError\<close> of a malformed
  pattern, and \<open>exec r text lastIndex\<close> is \<^verbatim>\<open>regex.exec(text)\<close> at the given
  \<^verbatim>\<open>lastIndex\<close>: the index of the next match and the index behind it (which becomes
  the next \<^verbatim>\<open>lastIndex\<close>), or \<open>None\<close> for \<^verbatim>\<open>null\<close>.

  The two loops of \<^verbatim>\<open>findTextMatches\<close> need not end (a pattern that matches the empty
  string never advances \<^verbatim>\<open>lastIndex\<close>; an empty literal query stays at the end of the
  text), so they are partial functions: \<open>None\<close> is a call that does not return.
\<close>

record 'r regex_engine =
  compile :: "string \<Rightarrow> 'r option"
  exec :: "'r \<Rightarrow> string \<Rightarrow> nat \<Rightarrow> (nat \<times> nat) option"

partial_function (option) regexLoop ::
    "('r \<Rightarrow> string \<Rightarrow> nat \<Rightarrow> (nat \<times> nat) option) \<Rightarrow> 'r \<Rightarrow> string \<Rightarrow> nat \<Rightarrow> (nat \<times> nat) list
     \<Rightarrow> (nat \<times> nat) list option" where
  "regexLoop ex r text lastIndex ms =
     (case ex r text lastIndex of
        None \<Rightarrow> Some ms
      | Some m \<Rightarrow> regexLoop ex r text (snd m) (ms @ [m]))"

partial_function (option) literalLoop ::
    "string \<Rightarrow> string \<Rightarrow> nat option \<Rightarrow> (nat \<times> nat) list \<Rightarrow> (nat \<times> nat) list option" where
  "literalLoop text q index ms =
     (case index of
        None \<Rightarrow> Some ms
      | Some i \<Rightarrow> literalLoop text q (indexOf text q (i + 1)) (ms @ [(i, i + length q)]))"

declare regexLoop.simps [code]

declare literalLoop.simps [code]

text \<open>
  The literal branch of \<^verbatim>\<open>findTextMatches\<close>, which is also what the call
  \<^verbatim>\<open>this.findTextMatches(text, query, false)\<close> of the \<^verbatim>\<open>catch\<close> block runs.
\<close>

definition findLiteralMatches :: "string \<Rightarrow> string \<Rightarrow> (nat \<times> nat) list option" where
  "findLiteralMatches text q = literalLoop text q (indexOf text q 0) []"

definition findTextMatches ::
    "'r regex_engine \<Rightarrow> string \<Rightarrow> string \<Rightarrow> bool \<Rightarrow> (nat \<times> nat) list option" where
  "findTextMatches rx text q regex =
     (if regex
      then (case compile rx q of
              None \<Rightarrow> findLiteralMatches text q
            | Some r \<Rightarrow> regexLoop (exec rx) r text 0 [])
      else findLiteralMatches text q)"

definition searchText :: "SearchOptions \<Rightarrow> string" where
  "searchText opts = (if caseSensitive opts then query opts else toLowerCase (query opts))"

definition fieldMatches :: "match_field \<Rightarrow> string \<Rightarrow> (nat \<times> nat) list \<Rightarrow> SearchMatch list" where
  "fieldMatches f v ms =
     map (\<lambda>m. \<lparr> m_field = f, m_value = v, startIndex = fst m, endIndex = snd m \<rparr>) ms"

definition hashMatch :: "string \<Rightarrow> string option \<Rightarrow> SearchMatch list" where
  "hashMatch hashQuery h =
     (case h of
        None \<Rightarrow> []
      | Some hash \<Rightarrow>
          if str_includes (toLowerCase hash) hashQuery
          then [\<lparr> m_field = HashField, m_value = hash, startIndex = 0, endIndex = length hash \<rparr>]
          else [])"

definition hashMatches :: "item_info \<Rightarrow> SearchOptions \<Rightarrow> SearchMatch list" where
  "hashMatches nfo opts =
     (case hashSearch opts of
        None \<Rightarrow> []
      | Some h \<Rightarrow>
          if h = [] then []
          else (case metadata nfo of
                  None \<Rightarrow> []
                | Some m \<Rightarrow> hashMatch (toLowerCase h) (meta_md5Hash m)
                            @ hashMatch (toLowerCase h) (meta_sha1Hash m)))"

definition findMatches :: "'r regex_engine \<Rightarrow> item_info \<Rightarrow> SearchOptions \<Rightarrow> SearchMatch list option" where
  "findMatches rx nfo opts =
     (if query opts = [] then Some []
      else
        Option.bind
          (findTextMatches rx (if caseSensitive opts then name nfo else toLowerCase (name nfo))
             (searchText opts) (useRegex opts))
          (\<lambda>nameMatches.
        Option.bind
          (if searchInPath opts
           then findTextMatches rx (if caseSensitive opts then path nfo else toLowerCase (path nfo))
                  (searchText opts) (useRegex opts)
           else Some [])
          (\<lambda>pathMatches.
             Some (fieldMatches NameField (name nfo) nameMatches
                   @ fieldMatches PathField (path nfo) pathMatches
                   @ hashMatches nfo opts))))"

subsection \<open>Scoring and filtering\<close>

definition fieldWeight :: "match_field \<Rightarrow> int" where
  "fieldWeight f = (case f of NameField \<Rightarrow> 10 | PathField \<Rightarrow> 5 | HashField \<Rightarrow> 15 | ContentField \<Rightarrow> 3)"

definition calculateScore :: "item_info \<Rightarrow> SearchMatch list \<Rightarrow> SearchOptions \<Rightarrow> int" where
  "calculateScore nfo ms opts =
     (let s0 = foldl (\<lambda>s m. s + fieldWeight (m_field m)) 0 ms;
          s1 = (if list_ex (\<lambda>m. toLowerCase (m_value m) = toLowerCase (query opts)) ms
                then s0 + 20 else s0);
          s2 = (if itype nfo = File then s1 + 2 else s1)
      in if isDeleted nfo then s2 - 1 else s2)"

text \<open>\<^verbatim>\<open>item.name.split('.').pop()\<close>: what follows the last dot, or the whole name.\<close>

definition lastSegment :: "string \<Rightarrow> string" where
  "lastSegment s = rev (takeWhile (\<lambda>c. c \<noteq> CHR ''.'') (rev s))"

definition applyFilters :: "item_info \<Rightarrow> SearchOptions \<Rightarrow> bool" where
  "applyFilters nfo opts =
     (if 0 < length (fileTypes opts) \<and> toLowerCase (lastSegment (name nfo)) \<notin> set (fileTypes opts)
      then False
      else if (case sizeMin opts of None \<Rightarrow> False | Some lo \<Rightarrow> item_size nfo < lo) then False
      else if (case sizeMax opts of None \<Rightarrow> False | Some hi \<Rightarrow> hi < item_size nfo) then False
      else if (case dateFrom opts of None \<Rightarrow> False | Some d \<Rightarrow> modified nfo < d) then False
      else if (case dateTo opts of None \<Rightarrow> False | Some d \<Rightarrow> d < modified nfo) then False
      else if \<not> so_includeDeleted opts \<and> isDeleted nfo then False
      else True)"

subsection \<open>The search\<close>

text \<open>
  The closure \<^verbatim>\<open>searchItems\<close> works on the captured set \<^verbatim>\<open>processedItems\<close> of item
  identifiers and the captured array \<^verbatim>\<open>results\<close>: an item whose identifier was seen is
  skipped with its children; otherwise it is matched, recorded when it has a match, and
  its children are searched.
\<close>

record search_state =
  processedItems :: "string list"
  results :: "SearchResult list"

definition visitItem :: "FileSystemItem \<Rightarrow> SearchMatch list \<Rightarrow> SearchOptions \<Rightarrow> search_state \<Rightarrow> search_state" where
  "visitItem it ms opts st =
     \<lparr> processedItems = processedItems st @ [item_id (info it)],
       results = (if 0 < length ms
                  then results st @ [\<lparr> r_item = it, r_matches = ms,
                                        r_score = calculateScore (info it) ms opts \<rparr>]
                  else results st) \<rparr>"

function searchItems ::
    "'r regex_engine \<Rightarrow> SearchOptions \<Rightarrow> FileSystemItem list \<Rightarrow> search_state \<Rightarrow> search_state option" where
  "searchItems rx opts [] st = Some st"
| "searchItems rx opts (FileSystemItem nfo ch # rest) st =
     (if item_id nfo \<in> set (processedItems st) then searchItems rx opts rest st
      else
        (case findMatches rx nfo opts of
           None \<Rightarrow> None
         | Some ms \<Rightarrow>
             (case (case ch of
                      None \<Rightarrow> Some (visitItem (FileSystemItem nfo ch) ms opts st)
                    | Some cs \<Rightarrow> searchItems rx opts cs (visitItem (FileSystemItem nfo ch) ms opts st)) of
                None \<Rightarrow> None
              | Some st' \<Rightarrow> searchItems rx opts rest st')))"
  by pat_completeness auto
termination
  by (relation "measure (\<lambda>(rx, opts, items, st). size_list size items)") auto

declare searchItems.simps [simp del]

text \<open>
  The candidates of the indexed path: a \<^verbatim>\<open>Set\<close> of items, in insertion order. The set
  holds references, the model holds values: an item equal to one that is in the list is
  not added. (Two different objects that are equal have the same identifier, and
  \<^verbatim>\<open>searchItems\<close> would skip the second.)
\<close>

definition setAdd :: "'a list \<Rightarrow> 'a \<Rightarrow> 'a list" where
  "setAdd xs x = (if x \<in> set xs then xs else xs @ [x])"

definition candidateItems :: "search_index \<Rightarrow> string list \<Rightarrow> FileSystemItem list" where
  "candidateItems idx queryTokens =
     foldl (\<lambda>c token. foldl setAdd c (case idx token of None \<Rightarrow> [] | Some xs \<Rightarrow> xs)) [] queryTokens"

text \<open>
  What \<^verbatim>\<open>search\<close> does with the items it starts from: search them, filter the results,
  and sort by descending score. \<^verbatim>\<open>Array.prototype.sort\<close> is stable, as the insertion
  sort \<open>sort_key\<close> is.
\<close>

definition searchFrom ::
    "'r regex_engine \<Rightarrow> SearchOptions \<Rightarrow> FileSystemItem list \<Rightarrow> SearchResult list option" where
  "searchFrom rx opts start =
     (case searchItems rx opts start \<lparr> processedItems = [], results = [] \<rparr> of
        None \<Rightarrow> None
      | Some st \<Rightarrow>
          Some (sort_key (\<lambda>r. - r_score r)
                  (filter (\<lambda>r. applyFilters (info (r_item r)) opts) (results st))))"

definition search ::
    "'r regex_engine \<Rightarrow> FileSystemItem list \<Rightarrow> SearchOptions \<Rightarrow> SearchResult list option" where
  "search rx items opts =
     (if query opts \<noteq> [] \<and> \<not> useRegex opts
      then searchFrom rx opts
             (candidateItems (buildSearchIndex items) (tokenize (toLowerCase (query opts))))
      else searchFrom rx opts items)"


section \<open>The forest of a parsed image\<close>

text \<open>
  The array \<^verbatim>\<open>parseImage\<close> returns is the root array of the builder: item objects that
  hold their children arrays. As a value of the node type it is the unfolding of the
  store: the items stored under a list of identifiers, each with the unfolding of its
  children array, down to a given depth (below which the children arrays are cut to
  empty ones). The search engine and the export engine are constructed over items of such
  forests.
\<close>

fun materialize :: "nat \<Rightarrow> file_tree \<Rightarrow> nat list \<Rightarrow> FileSystemItem list" where
  "materialize 0 t ks = []"
| "materialize (Suc n) t ks =
     concat (map (\<lambda>k. case map_of (itemMap t) k of
                         None \<Rightarrow> []
                       | Some nd \<Rightarrow>
                           [FileSystemItem (node_info nd)
                              (map_option (materialize n t) (node_children nd))]) ks)"

text \<open>\<^verbatim>\<open>String.prototype.endsWith\<close>, and the metadata of the object stored under an identifier.\<close>

definition endsWith :: "string \<Rightarrow> string \<Rightarrow> bool" where
  "endsWith s t \<longleftrightarrow> drop (length s - length t) s = t"

definition metaOf :: "file_tree \<Rightarrow> nat \<Rightarrow> item_metadata option" where
  "metaOf t k = (case map_of (itemMap t) k of None \<Rightarrow> None | Some nd \<Rightarrow> metadata (node_info nd))"

text \<open>
  The shape of the items the builder hands over. It writes a path as \<open>/\<close> + name or as
  the path of the parent + \<open>/\<close> + name, so the path of an item ends with a slash and the
  name of the item. It copies the fingerprints of the record when it creates the item,
  and \<^verbatim>\<open>parseImage\<close> builds the tree before \<^verbatim>\<open>calculateHashes\<close> computes them: the
  records of the parser stages carry no fingerprint, and neither do the items.
\<close>

definition builtItem :: "item_info \<Rightarrow> bool" where
  "builtItem nfo \<longleftrightarrow>
     endsWith (path nfo) (''/'' @ name nfo)
     \<and> (case metadata nfo of
          None \<Rightarrow> True
        | Some m \<Rightarrow> meta_md5Hash m = None \<and> meta_sha1Hash m = None)"

definition builtForest :: "FileSystemItem list \<Rightarrow> bool" where
  "builtForest items \<longleftrightarrow> list_all (\<lambda>it. builtItem (info it)) (preorder items)"

definition unhashed :: "(nat \<times> FileRecord) list \<Rightarrow> bool" where
  "unhashed recs \<longleftrightarrow> list_all (\<lambda>e. md5Hash (snd e) = None \<and> sha1Hash (snd e) = None) recs"


section \<open>Concrete inputs\<close>

text \<open>The inputs at which the theorems below are instantiated and the code is run.\<close>

definition exampleInfo :: "string \<Rightarrow> string \<Rightarrow> string \<Rightarrow> item_type \<Rightarrow> bool \<Rightarrow> item_info" where
  "exampleInfo i n p ty deleted =
     \<lparr> item_id = i, name = n, itype = ty, item_size = 4096, created = 0, modified = 0,
       accessed = 0, path = p,
       metadata = Some \<lparr> meta_fileId = 0, meta_parentId = 0, meta_attributes = 0,
                        meta_isDeleted = deleted, meta_md5Hash = None, meta_sha1Hash = None,
                        meta_refs = \<lparr> refs_blockNumber = 0, refs_entryIndex = 0,
                                      refs_btreeLevel = 0 \<rparr> \<rparr> \<rparr>"

definition deletedFile :: FileSystemItem where
  "deletedFile =
     FileSystemItem
       (exampleInfo ''19'' ''deleted_file.txt'' ''/$Recycle.Bin/deleted_file.txt'' File True) None"

definition recycleBin :: FileSystemItem where
  "recycleBin =
     FileSystemItem (exampleInfo ''18'' ''$Recycle.Bin'' ''/$Recycle.Bin'' Directory False)
       (Some [deletedFile])"

definition jsonOptions :: "bool \<Rightarrow> bool \<Rightarrow> ExportOptions" where
  "jsonOptions deleted flat =
     \<lparr> format = Json, includeMetadata = True, includeDeleted = deleted, includeHashes = False,
       flattenStructure = flat \<rparr>"

definition examplePlatform :: platform where
  "examplePlatform = \<lparr> now = 1767225600000, decodeUtf16le = map (\<lambda>b. char_of (unat b)),
                       mockTimes = (\<lambda>i. (1704067200000, 1735689600000)) \<rparr>"

text \<open>
  A geometry with blocks of 32 bytes, and an image of two blocks whose block 1 is an
  internal node with no key and one child pointer, which points to block 1 itself.
\<close>

definition smallGeometry :: RefsSuperblocK where
  "smallGeometry =
     \<lparr> signature = ''ReFS'', version = 1, blockSize = 32, sectorsPerBlock = 1,
       bytesPerSector = 32, totalBlocks = 2, rootDirectoryBlock = 1, metadataTableBlock = 0,
       checkpointBlock = 0, volumeId = [], creationTime = 0, lastMountTime = 0 \<rparr>"

definition cyclicImage :: buffer where
  "cyclicImage = replicate 48 0 @ [1, 0, 0, 0] @ replicate 12 0"

definition exampleRecord :: "nat \<Rightarrow> nat \<Rightarrow> string \<Rightarrow> bool \<Rightarrow> FileRecord" where
  "exampleRecord i p n isDir =
     \<lparr> fileId = i, parentId = p, fileName = n, fileSize = 0,
       attributes = (if isDir then 0x10 else 0x20), rec_creationTime = 0, modificationTime = 0,
       accessTime = 0, isDirectory = isDir, rec_isDeleted = False, md5Hash = None,
       sha1Hash = None \<rparr>"

text \<open>
  Three stores. In the first every record comes after its parent. In the second the file
  \<open>b\<close> was stored before its parent directory \<open>a\<close>. In the third the parent of \<open>b\<close>
  is a file.
\<close>

definition orderedStore :: "(nat \<times> FileRecord) list" where
  "orderedStore =
     [(1, exampleRecord 1 0 ''a'' True), (2, exampleRecord 2 1 ''b'' False),
      (3, exampleRecord 3 7 ''c'' False)]"

definition childFirstStore :: "(nat \<times> FileRecord) list" where
  "childFirstStore = [(2, exampleRecord 2 1 ''b'' False), (1, exampleRecord 1 0 ''a'' True)]"

definition fileParentStore :: "(nat \<times> FileRecord) list" where
  "fileParentStore = [(1, exampleRecord 1 0 ''a'' False), (2, exampleRecord 2 1 ''b'' False)]"

text \<open>
  A literal, case-insensitive search for a query in names and paths, with no filter, and
  the same search with the regex flag set; an engine for the regular expressions that
  rejects every pattern; and two files.
\<close>

definition literalSearch :: "string \<Rightarrow> SearchOptions" where
  "literalSearch q =
     \<lparr> query = q, caseSensitive = False, useRegex = False, searchInPath = True,
       searchInContent = False, fileTypes = [], sizeMin = None, sizeMax = None,
       dateFrom = None, dateTo = None, so_includeDeleted = True, hashSearch = None \<rparr>"

definition regexSearch :: "string \<Rightarrow> SearchOptions" where
  "regexSearch q = (literalSearch q)\<lparr>useRegex := True\<rparr>"

definition rejectingEngine :: "unit regex_engine" where
  "rejectingEngine = \<lparr> compile = (\<lambda>p. None), exec = (\<lambda>r text lastIndex. None) \<rparr>"

definition kernelFile :: FileSystemItem where
  "kernelFile =
     FileSystemItem
       (exampleInfo ''8'' ''kernel32.dll'' ''/Windows/System32/kernel32.dll'' File False) None"

definition parenFile :: FileSystemItem where
  "parenFile =
     FileSystemItem (exampleInfo ''3'' ''report(1).txt'' ''/Users/report(1).txt'' File False) None"

text \<open>
  An engine for one kind of pattern, the class of one range of letters \<^verbatim>\<open>[c-d]\<close>, as
  \<^verbatim>\<open>new RegExp(pattern, 'gi')\<close> treats it. A range whose first letter lies behind its
  last in code order is a \<^verbatim>\<open>SyntaxError\<close> (\<^verbatim>\<open>Range out of order in character class\<close>).
  With the flag \<^verbatim>\<open>i\<close> a character is in the class when it or the letter of the other
  case is in the range, and with the flag \<^verbatim>\<open>g\<close> \<^verbatim>\<open>exec\<close> finds the first such character
  from \<^verbatim>\<open>lastIndex\<close> on. The engine knows no other pattern, and is run on no other.
\<close>

definition isAsciiLetter :: "char \<Rightarrow> bool" where
  "isAsciiLetter c =
     (let n = (of_char c :: nat) in (65 \<le> n \<and> n \<le> 90) \<or> (97 \<le> n \<and> n \<le> 122))"

definition otherCase :: "char \<Rightarrow> char" where
  "otherCase c =
     (let n = (of_char c :: nat) in
      if 97 \<le> n \<and> n \<le> 122 then char_of (n - 32)
      else if 65 \<le> n \<and> n \<le> 90 then char_of (n + 32) else c)"

definition compileRange :: "string \<Rightarrow> (char \<times> char) option" where
  "compileRange p =
     (case p of
        [b, c, h, d, e] \<Rightarrow>
          if b = CHR ''['' \<and> h = CHR ''-'' \<and> e = CHR '']'' \<and> isAsciiLetter c \<and> isAsciiLetter d
             \<and> (of_char c :: nat) \<le> of_char d
          then Some (c, d) else None
      | _ \<Rightarrow> None)"

definition inRange :: "char \<times> char \<Rightarrow> char \<Rightarrow> bool" where
  "inRange r ch =
     (((of_char (fst r) :: nat) \<le> of_char ch \<and> (of_char ch :: nat) \<le> of_char (snd r))
      \<or> ((of_char (fst r) :: nat) \<le> of_char (otherCase ch)
          \<and> (of_char (otherCase ch) :: nat) \<le> of_char (snd r)))"

definition execRange :: "char \<times> char \<Rightarrow> string \<Rightarrow> nat \<Rightarrow> (nat \<times> nat) option" where
  "execRange r text lastIndex =
     map_option (\<lambda>k. (k, k + 1))
       (List.find (\<lambda>k. inRange r (text ! k)) [lastIndex ..< length text])"

definition rangeEngine :: "(char \<times> char) regex_engine" where
  "rangeEngine = \<lparr> compile = compileRange, exec = execRange \<rparr>"






section \<open>Properties of the export engine\<close>

lemma countRecursive_preorder: "countRecursive items count = count + length (preorder items)"
  by (induction items count rule: countRecursive.induct) simp_all

lemma preorder_append: "preorder (xs @ ys) = preorder xs @ preorder ys"
  by (induction xs rule: preorder.induct) simp_all

lemma flatten_preorder:
  "includeDeleted opts \<Longrightarrow> flatten opts items flattened = flattened @ preorder items"
  by (induction opts items flattened rule: flatten.induct) simp_all

lemma countProcessed_processItems:
  "includeDeleted opts \<Longrightarrow> countProcessed (processItems items opts) = length (preorder items)"
  by (induction items opts rule: processItems.induct) simp_all

text \<open>
  Claim C10. With \<open>includeDeleted\<close> set, \<open>flattenItems\<close> returns the pre-order
  depth-first listing of the forest, which holds every node once, and the length of the
  list is \<open>countItems\<close> of the forest.
\<close>

theorem flattenItems_includeDeleted:
  "includeDeleted opts \<Longrightarrow>
     flattenItems items opts = preorder items
     \<and> length (flattenItems items opts) = countItems items"
  by (simp add: flattenItems_def countItems_def flatten_preorder countRecursive_preorder)

theorem flattenItems_includeDeleted_witness:
  "includeDeleted (jsonOptions True True)
   \<and> flattenItems [recycleBin] (jsonOptions True True) = preorder [recycleBin]
   \<and> length (flattenItems [recycleBin] (jsonOptions True True)) = countItems [recycleBin]
   \<and> preorder [recycleBin] = [recycleBin, deletedFile]"
proof -
  have p: "preorder [recycleBin] = [recycleBin, deletedFile]"
    by (simp add: recycleBin_def deletedFile_def)
  have d: "includeDeleted (jsonOptions True True)"
    by (simp add: jsonOptions_def)
  from flattenItems_includeDeleted [OF d, of "[recycleBin]"] p d
  show ?thesis by blast
qed

text \<open>
  Claim C6, as the code has it. \<open>totalItems\<close> is the number of nodes of the forest the
  engine was given, whatever the options are. When deleted items are included, that is
  the number of nodes of the nested output (by full descent), and in flattened mode the
  length of the flat list.
\<close>

theorem exportToJson_totalItems:
  "totalItems (exportInfo (exportToJson items clock opts)) = countItems items
   \<and> (includeDeleted opts \<longrightarrow>
        (case fileSystem (exportToJson items clock opts) of
           Nested ps \<Rightarrow> countProcessed ps = countItems items
         | Flat xs \<Rightarrow> length xs = countItems items))"
  by (simp add: exportToJson_def flattenItems_def countItems_def flatten_preorder
      countRecursive_preorder countProcessed_processItems)

theorem exportToJson_totalItems_witness:
  "includeDeleted (jsonOptions True False)
   \<and> totalItems (exportInfo (exportToJson [recycleBin] 0 (jsonOptions True False)))
       = countItems [recycleBin]
   \<and> (case fileSystem (exportToJson [recycleBin] 0 (jsonOptions True False)) of
         Nested ps \<Rightarrow> countProcessed ps = countItems [recycleBin]
       | Flat xs \<Rightarrow> length xs = countItems [recycleBin])
   \<and> countItems [recycleBin] = 2"
proof -
  have c: "countItems [recycleBin] = 2"
    by (simp add: countItems_def recycleBin_def deletedFile_def)
  have d: "includeDeleted (jsonOptions True False)"
    by (simp add: jsonOptions_def)
  from exportToJson_totalItems [of "[recycleBin]" 0 "jsonOptions True False"] c d
  show ?thesis by blast
qed

text \<open>
  The claim as stated fails when deleted items are filtered out: for a forest that is one
  deleted file, \<open>totalItems\<close> is 1 and the exported tree, nested or flat, has no node.
\<close>

theorem exportToJson_totalItems_counterexample:
  "totalItems (exportInfo (exportToJson [deletedFile] 0 (jsonOptions False False))) = 1
   \<and> exportedCount (fileSystem (exportToJson [deletedFile] 0 (jsonOptions False False))) = 0
   \<and> totalItems (exportInfo (exportToJson [deletedFile] 0 (jsonOptions False True))) = 1
   \<and> exportedCount (fileSystem (exportToJson [deletedFile] 0 (jsonOptions False True))) = 0"
  by (simp add: exportToJson_def jsonOptions_def deletedFile_def exampleInfo_def countItems_def
      exportedCount_def flattenItems_def isDeleted_def)

section \<open>Properties of the parser\<close>

subsection \<open>The superblock locator\<close>

lemma readString_in_range:
  "offset + len \<le> length buf \<Longrightarrow>
     readString buf offset len = Inr (map (\<lambda>b. char_of (unat b)) (take len (drop offset buf)))"
  by (simp add: readString_def bytesAt_def andThen_def)

lemma parseSuperblock_short:
  "length buf < 0x1E00 + 512 \<Longrightarrow>
     parseSuperblock pf buf st = Inr (st\<lparr>superblock := Some (createMockSuperblock pf buf)\<rparr>)"
  by (simp add: parseSuperblock_def)

lemma parseSuperblock_no_signature:
  assumes "\<not> hasRefsSignature (signatureField buf)"
  shows "parseSuperblock pf buf st = Inr (st\<lparr>superblock := Some (createMockSuperblock pf buf)\<rparr>)"
proof (cases "length buf < 0x1E00 + 512")
  case True
  then show ?thesis by (rule parseSuperblock_short)
next
  case False
  then have "readString buf 0x1E00 8 = Inr (signatureField buf)"
    by (simp add: readString_in_range signatureField_def)
  with False assms show ?thesis
    by (simp add: parseSuperblock_def andThen_def)
qed

text \<open>
  Claim C4, as the code has it. For a buffer that is shorter than the superblock offset
  plus the header size, or whose signature field has neither magic token, the locator
  does not fail and stores the synthesized geometry: block size 4096, the fixed root,
  metadata and checkpoint blocks 10, 20 and 30, the placeholder volume identifier, the
  creation time 2024-01-01T00:00:00Z, and as block count the number of whole 4096-byte
  blocks of the buffer, or 1000 when the buffer has no whole block.
\<close>

theorem parseSuperblock_synthesized:
  assumes "length buf < 0x1E00 + 512 \<or> \<not> hasRefsSignature (signatureField buf)"
  shows "parseSuperblock pf buf st = Inr (st\<lparr>superblock := Some (createMockSuperblock pf buf)\<rparr>)
    \<and> blockSize (createMockSuperblock pf buf) = 4096
    \<and> totalBlocks (createMockSuperblock pf buf)
        = (if length buf div 4096 = 0 then 1000 else length buf div 4096)
    \<and> rootDirectoryBlock (createMockSuperblock pf buf) = 10
    \<and> metadataTableBlock (createMockSuperblock pf buf) = 20
    \<and> checkpointBlock (createMockSuperblock pf buf) = 30
    \<and> volumeId (createMockSuperblock pf buf) = ''12345678-1234-5678-9abc-123456789abc''
    \<and> creationTime (createMockSuperblock pf buf) = 1704067200000"
proof -
  from assms
  have "parseSuperblock pf buf st = Inr (st\<lparr>superblock := Some (createMockSuperblock pf buf)\<rparr>)"
    using parseSuperblock_short parseSuperblock_no_signature by blast
  then show ?thesis
    by (simp add: createMockSuperblock_def epoch2024_def)
qed

lemma char_of_zero: "char_of (0::nat) = CHR 0x00"
  by (simp add: char_of_def)

lemma signatureField_zeros: "signatureField (replicate 8192 0) = replicate 8 (CHR 0x00)"
  by (simp add: signatureField_def char_of_zero)

lemma no_signature_in_zeros: "\<not> hasRefsSignature (replicate 8 (CHR 0x00))"
  by (simp add: hasRefsSignature_def eval_nat_numeral)

theorem parseSuperblock_synthesized_witness:
  "\<not> length (replicate 8192 (0::byte)) < 0x1E00 + 512
   \<and> \<not> hasRefsSignature (signatureField (replicate 8192 0))
   \<and> parseSuperblock examplePlatform (replicate 8192 0) newParser
       = Inr (newParser\<lparr>superblock := Some (createMockSuperblock examplePlatform (replicate 8192 0))\<rparr>)
   \<and> totalBlocks (createMockSuperblock examplePlatform (replicate 8192 0)) = 2"
proof -
  have h: "\<not> hasRefsSignature (signatureField (replicate 8192 0))"
    by (simp only: signatureField_zeros no_signature_in_zeros not_False_eq_True)
  have t: "totalBlocks (createMockSuperblock examplePlatform (replicate 8192 0)) = 2"
    by (simp add: createMockSuperblock_def)
  from parseSuperblock_synthesized [of "replicate 8192 0" examplePlatform newParser] h t
  show ?thesis by simp
qed

text \<open>
  The claim as stated gives the block count a minimum of 1000. The code takes 1000 only
  for a count of 0: a buffer of 4096 bytes gets the block count 1.
\<close>

theorem parseSuperblock_synthesized_counterexample:
  "length (replicate 4096 (0::byte)) < 0x1E00 + 512
   \<and> parseSuperblock examplePlatform (replicate 4096 0) newParser
       = Inr (newParser\<lparr>superblock := Some (createMockSuperblock examplePlatform (replicate 4096 0))\<rparr>)
   \<and> totalBlocks (createMockSuperblock examplePlatform (replicate 4096 0)) = 1
   \<and> max (length (replicate 4096 (0::byte)) div 4096) 1000 = 1000"
  by (simp add: parseSuperblock_short createMockSuperblock_def)

subsection \<open>The tree walker\<close>

lemma traverseBTreeNode_depth_cap:
  "10 < depth \<Longrightarrow> traverseBTreeNode pf buf sb blockNumber depth st = Inr st"
  by (simp add: traverseBTreeNode.simps)

lemma traverseBTreeNode_outside:
  "length buf \<le> blockNumber * (if blockSize sb = 0 then 4096 else blockSize sb) \<Longrightarrow>
     traverseBTreeNode pf buf sb blockNumber depth st = Inr st"
  by (simp add: traverseBTreeNode.simps)

lemma traverse_all_dom: "All traverseBTreeNode_traverseChildren_dom"
  by (relation "measures
        [\<lambda>x. case x of
                Inl (pf, buf, sb, blockNumber, depth, st) \<Rightarrow> 2 * (11 - depth)
              | Inr (pf, buf, sb, childOffset, keyCount, depth, i, st) \<Rightarrow> 2 * (10 - depth) + 1,
         \<lambda>x. case x of
                Inl (pf, buf, sb, blockNumber, depth, st) \<Rightarrow> 0
              | Inr (pf, buf, sb, childOffset, keyCount, depth, i, st) \<Rightarrow> 50 - i]")
     auto

text \<open>
  Claim C5. The traversal terminates for every buffer, geometry, starting block and
  depth: the call is in the accessible part of the relation that links a call of
  \<open>traverseBTreeNode\<close> or of its loop over the child pointers to the calls it makes, so
  every chain of nested calls is finite, cyclic child pointers or not. A call beyond
  depth 10, and a call whose block starts outside the buffer, returns at once without
  an error and without touching the record store, so only that branch ends.
\<close>

theorem traverseBTreeNode_terminates:
  "traverseBTreeNode_traverseChildren_dom (Inl (pf, buf, sb, blockNumber, depth, st))
   \<and> (10 < depth \<longrightarrow> traverseBTreeNode pf buf sb blockNumber depth st = Inr st)
   \<and> (length buf \<le> blockNumber * (if blockSize sb = 0 then 4096 else blockSize sb) \<longrightarrow>
        traverseBTreeNode pf buf sb blockNumber depth st = Inr st)"
  using traverse_all_dom traverseBTreeNode_depth_cap traverseBTreeNode_outside by blast

text \<open>
  A run on an image whose only node points back to itself: eleven nested visits of
  block 1, the last of which is cut by the depth cap, and the walk returns normally.
\<close>

lemma traverse_cyclicImage:
  "traverseBTreeNode examplePlatform cyclicImage smallGeometry 1 0 newParser = Inr newParser"
  by code_simp

theorem traverseBTreeNode_terminates_witness:
  "10 < (11::nat)
   \<and> length cyclicImage \<le> 2 * (if blockSize smallGeometry = 0 then 4096 else blockSize smallGeometry)
   \<and> traverseBTreeNode_traverseChildren_dom
        (Inl (examplePlatform, cyclicImage, smallGeometry, 2, 11, newParser))
   \<and> traverseBTreeNode examplePlatform cyclicImage smallGeometry 2 11 newParser = Inr newParser
   \<and> traverseBTreeNode examplePlatform cyclicImage smallGeometry 1 0 newParser = Inr newParser"
proof -
  have h: "length cyclicImage \<le> 2 * (if blockSize smallGeometry = 0 then 4096 else blockSize smallGeometry)"
    by (simp add: cyclicImage_def smallGeometry_def)
  from traverseBTreeNode_terminates [of examplePlatform cyclicImage smallGeometry 2 11 newParser] h
    traverse_cyclicImage
  show ?thesis by simp
qed

subsection \<open>The pipeline\<close>

lemma validateRefsImage_iff: "validateRefsImage buf = (buf \<noteq> [])"
  by (simp add: validateRefsImage_def split: sum.splits)

lemma parseImage_not_EmptyInput: "parseImage pf buf \<noteq> Inl EmptyInput"
  by (simp add: parseImage_def split: sum.splits)

lemma handleAddEvidence_EmptyInput_iff: "handleAddEvidence pf buf = Inl EmptyInput \<longleftrightarrow> buf = []"
  by (simp add: handleAddEvidence_def validateRefsImage_iff parseImage_not_EmptyInput)

text \<open>
  The run of the stages on an image of 40961 zero bytes. It has no signature, so the
  geometry is synthesized and the sample records are generated. The walk then starts at
  block 10, at offset 40960: the offset is inside the buffer, and the node header, four
  bytes from there, is not.
\<close>

lemma signatureField_zeros_40961: "signatureField (replicate 40961 0) = replicate 8 (CHR 0x00)"
  by (simp add: signatureField_def char_of_zero)

lemma parseSuperblock_zeros_40961:
  "parseSuperblock pf (replicate 40961 0) newParser
     = Inr (newParser\<lparr>superblock := Some (createMockSuperblock pf (replicate 40961 0))\<rparr>)"
  by (rule parseSuperblock_no_signature)
     (simp only: signatureField_zeros_40961 no_signature_in_zeros not_False_eq_True)

lemma parseMetadataTable_mock:
  "superblock st = Some (createMockSuperblock pf buf) \<Longrightarrow>
     parseMetadataTable pf buf st = Inr (generateMockFileSystem pf st)"
  by (simp add: parseMetadataTable_def createMockSuperblock_def)

lemma traverseBTree_zeros_40961:
  "superblock st = Some (createMockSuperblock pf (replicate 40961 0)) \<Longrightarrow>
     traverseBTree pf (replicate 40961 0) st = Inl RangeError"
  by (simp add: traverseBTree_def createMockSuperblock_def traverseBTreeNode.simps
      getUint32_def getUint_def andThen_def)

lemma parseImage_zeros_40961: "parseImage pf (replicate 40961 0) = Inl (ParsingFailed RangeError)"
proof -
  let ?buf = "replicate 40961 (0::byte)"
  let ?st1 = "newParser\<lparr>superblock := Some (createMockSuperblock pf ?buf)\<rparr>"
  have s1: "superblock ?st1 = Some (createMockSuperblock pf ?buf)"
    by simp
  have s2: "superblock (generateMockFileSystem pf ?st1) = Some (createMockSuperblock pf ?buf)"
    by (simp add: generateMockFileSystem_def)
  show ?thesis
    by (simp only: parseImage_def parseSuperblock_zeros_40961 parseMetadataTable_mock [OF s1]
        traverseBTree_zeros_40961 [OF s2] andThen_def sum.case)
qed

text \<open>
  Claim C1. The first half holds: the pipeline fails with \<open>EmptyInput\<close> exactly for the
  empty buffer. The second half does not: for the buffer of 40961 zero bytes the pipeline
  throws (\<^verbatim>\<open>ReFS parsing failed\<close>, from the \<^verbatim>\<open>RangeError\<close> of the tree walker)
  instead of returning a tree.
\<close>

theorem handleAddEvidence_throws_on_nonempty_buffer:
  "(handleAddEvidence pf buf = Inl EmptyInput \<longleftrightarrow> buf = [])
   \<and> handleAddEvidence pf (replicate 40961 0) = Inl (ParsingFailed RangeError)"
  by (simp add: handleAddEvidence_EmptyInput_iff)
     (simp add: handleAddEvidence_def validateRefsImage_iff parseImage_zeros_40961)

section \<open>Properties of the hierarchy builder\<close>

lemma update_fresh: "k \<notin> fst ` set al \<Longrightarrow> AList.update k v al = al @ [(k, v)]"
  by (induction al) auto

lemma createItems_fold:
  "distinct (map fst acc @ map fst recs) \<Longrightarrow>
     foldl (\<lambda>m (fid, r). AList.update fid (newItem fid r) m) acc recs
       = acc @ map (\<lambda>(k, r). (k, newItem k r)) recs"
proof (induction recs arbitrary: acc)
  case Nil
  then show ?case by simp
next
  case (Cons e recs)
  obtain k r where e: "e = (k, r)" by (cases e)
  from Cons.prems e have fresh: "k \<notin> fst ` set acc" by auto
  from Cons.prems e have "distinct (map fst (acc @ [(k, newItem k r)]) @ map fst recs)" by auto
  from Cons.IH [OF this] show ?case
    by (simp add: e update_fresh [OF fresh])
qed

lemma createItems_map:
  "distinct (map fst recs) \<Longrightarrow> createItems recs = map (\<lambda>(k, r). (k, newItem k r)) recs"
  using createItems_fold [of "[]" recs] by (simp add: createItems_def)

lemma keys_createItems: "distinct (map fst recs) \<Longrightarrow> map fst (createItems recs) = map fst recs"
  by (simp add: createItems_map case_prod_unfold comp_def)

lemma map_of_mapped: "map_of (map (\<lambda>(k, r). (k, f k r)) xs) k = map_option (f k) (map_of xs k)"
  by (induction xs) auto

lemma map_of_createItems:
  "distinct (map fst recs) \<Longrightarrow> map_of (createItems recs) k = map_option (newItem k) (map_of recs k)"
  by (simp add: createItems_map map_of_mapped)

lemma map_of_None_keys: "map_of al k = None \<longleftrightarrow> k \<notin> set (map fst al)"
  by (simp add: map_of_eq_None_iff)

lemma wellKeyed_present:
  "wellKeyed recs t \<Longrightarrow> (map_of (itemMap t) k = None) = (map_of recs k = None)"
  by (simp add: wellKeyed_def map_of_None_keys)

lemma keys_update_present:
  "map_of al k = Some v' \<Longrightarrow> map fst (AList.update k v al) = map fst al"
  by (simp add: AList.update_keys map_of_eq_None_iff [symmetric] flip: not_None_eq) 

lemma wellKeyed_item: "wellKeyed recs t \<Longrightarrow> map_of (itemMap t) k = Some nd \<Longrightarrow> \<exists>r. map_of recs k = Some r"
  using wellKeyed_present [of recs t k] by auto

lemma wellKeyed_record: "wellKeyed recs t \<Longrightarrow> map_of recs k = Some r \<Longrightarrow> \<exists>nd. map_of (itemMap t) k = Some nd"
  using wellKeyed_present [of recs t k] by auto

lemma linkItem_step:
  assumes inv: "wellKeyed recs t" and rec: "map_of recs fid = Some r"
  shows "wellKeyed recs (linkItem recs t fid)"
    and "rootItems (linkItem recs t fid) = rootItems t @ (if isRootRecord recs fid then [fid] else [])"
    and "childrenOf (linkItem recs t fid) p =
           (case childrenOf t p of
              None \<Rightarrow> None
            | Some cs \<Rightarrow> Some (cs @ (if isChildRecord recs p fid then [fid] else [])))"
proof -
  from inv rec obtain item where item: "map_of (itemMap t) fid = Some item"
    using wellKeyed_record by blast
  show "wellKeyed recs (linkItem recs t fid)"
    using inv rec item
    apply (auto simp: linkItem_def wellKeyed_def Let_def AList.update_conv' keys_update_present setPath_def split: option.splits if_splits)
    apply (metis option.distinct(1))
    done
  show "rootItems (linkItem recs t fid) = rootItems t @ (if isRootRecord recs fid then [fid] else [])"
    using inv rec item wellKeyed_present [OF inv]
    by (auto simp: linkItem_def isRootRecord_def Let_def split: option.splits)
  show "childrenOf (linkItem recs t fid) p =
           (case childrenOf t p of
              None \<Rightarrow> None
            | Some cs \<Rightarrow> Some (cs @ (if isChildRecord recs p fid then [fid] else [])))"
    using rec item
    by (auto simp: linkItem_def childrenOf_def isChildRecord_def Let_def AList.update_conv' setPath_def
        split: option.splits dest: wellKeyed_item [OF inv] wellKeyed_record [OF inv])
qed

lemma linkItem_fold:
  assumes "wellKeyed recs t" and "set ks \<subseteq> set (map fst recs)"
  shows "wellKeyed recs (foldl (linkItem recs) t ks)
    \<and> rootItems (foldl (linkItem recs) t ks) = rootItems t @ filter (isRootRecord recs) ks
    \<and> childrenOf (foldl (linkItem recs) t ks) p =
         (case childrenOf t p of
            None \<Rightarrow> None
          | Some cs \<Rightarrow> Some (cs @ filter (isChildRecord recs p) ks))"
  using assms
proof (induction ks arbitrary: t)
  case Nil
  then show ?case by (simp split: option.splits)
next
  case (Cons k ks)
  from Cons.prems have "k \<in> fst ` set recs" by auto
  then have "map_of recs k \<noteq> None" by (simp add: map_of_eq_None_iff)
  then obtain r where r: "map_of recs k = Some r" by auto
  note step = linkItem_step [OF Cons.prems(1) r]
  from Cons.prems have "set ks \<subseteq> set (map fst recs)" by simp
  from Cons.IH [OF step(1) this] step(2) step(3) [of p]
  show ?case by (simp split: option.splits)
qed

lemma children_newItem: "node_children (newItem k r) = (if isDirectory r then Some [] else None)"
  by (simp add: newItem_def)

lemma wellKeyed_createItems:
  assumes "distinct (map fst recs)"
  shows "wellKeyed recs \<lparr> rootItems = [], itemMap = createItems recs \<rparr>"
proof -
  have "node_children nd = None \<longleftrightarrow> \<not> isDirectory r"
    if "map_of (createItems recs) k = Some nd" and "map_of recs k = Some r" for k nd r
  proof -
    from that have "nd = newItem k r"
      by (simp add: map_of_createItems [OF assms])
    then show ?thesis
      by (simp add: children_newItem)
  qed
  then show ?thesis
    by (simp add: wellKeyed_def keys_createItems [OF assms])
qed

lemma childrenOf_createItems:
  assumes "distinct (map fst recs)"
  shows "childrenOf \<lparr> rootItems = [], itemMap = createItems recs \<rparr> p
           = (if isDirectoryRecord recs p then Some [] else None)"
  by (cases "map_of recs p")
     (simp_all add: childrenOf_def isDirectoryRecord_def map_of_createItems [OF assms]
       children_newItem)

lemma buildFileTree_structure:
  assumes "distinct (map fst recs)"
  shows "wellKeyed recs (buildFileTree recs)"
    and "rootItems (buildFileTree recs) = filter (isRootRecord recs) (map fst recs)"
    and "childrenOf (buildFileTree recs) p =
           (if isDirectoryRecord recs p then Some (filter (isChildRecord recs p) (map fst recs))
            else None)"
proof -
  let ?t0 = "\<lparr> rootItems = [], itemMap = createItems recs \<rparr>"
  have b: "buildFileTree recs = foldl (linkItem recs) ?t0 (map fst recs)"
    by (simp add: buildFileTree_def Let_def keys_createItems [OF assms])
  note f = linkItem_fold [OF wellKeyed_createItems [OF assms] subset_refl, of p]
  from f show "wellKeyed recs (buildFileTree recs)"
    by (simp add: b)
  from f show "rootItems (buildFileTree recs) = filter (isRootRecord recs) (map fst recs)"
    by (simp add: b)
  from f show "childrenOf (buildFileTree recs) p =
           (if isDirectoryRecord recs p then Some (filter (isChildRecord recs p) (map fst recs))
            else None)"
    by (simp add: b childrenOf_createItems [OF assms])
qed

lemma placed_by_keys:
  assumes "distinct (map fst (itemMap t))"
  shows "placed t =
           rootItems t
           @ concat (map (\<lambda>k. case childrenOf t k of None \<Rightarrow> [] | Some cs \<Rightarrow> cs)
                       (map fst (itemMap t)))"
proof -
  have "(case node_children (snd e) of None \<Rightarrow> [] | Some cs \<Rightarrow> cs)
          = (case childrenOf t (fst e) of None \<Rightarrow> [] | Some cs \<Rightarrow> cs)"
    if "e \<in> set (itemMap t)" for e
  proof -
    from that assms have "map_of (itemMap t) (fst e) = Some (snd e)"
      by simp
    then show ?thesis
      by (simp add: childrenOf_def)
  qed
  then show ?thesis
    by (simp add: placed_def comp_def cong: map_cong)
qed

lemma child_of_one_parent:
  "isChildRecord recs p k \<Longrightarrow> isChildRecord recs q k \<Longrightarrow> p = q"
  by (auto simp: isChildRecord_def split: option.splits)

lemma root_is_no_child:
  "isRootRecord recs k \<Longrightarrow> isChildRecord recs p k \<Longrightarrow> isDirectoryRecord recs p \<Longrightarrow> False"
  by (auto simp: isRootRecord_def isChildRecord_def isDirectoryRecord_def split: option.splits)

lemma distinct_children_lists:
  assumes "distinct ks"
  shows "distinct ps \<Longrightarrow>
     distinct (concat (map (\<lambda>p. if isDirectoryRecord recs p then filter (isChildRecord recs p) ks
                                  else []) ps))"
proof (induction ps)
  case Nil
  then show ?case by simp
next
  case (Cons p ps)
  have "k \<notin> set (concat (map (\<lambda>q. if isDirectoryRecord recs q
                                        then filter (isChildRecord recs q) ks else []) ps))"
    if "isChildRecord recs p k" for k
    using that Cons.prems by (auto dest: child_of_one_parent split: if_splits)
  with Cons assms show ?case
    by auto
qed

lemma buildFileTree_placed:
  assumes "distinct (map fst recs)"
  shows "placed (buildFileTree recs) =
           filter (isRootRecord recs) (map fst recs)
           @ concat (map (\<lambda>p. if isDirectoryRecord recs p
                                then filter (isChildRecord recs p) (map fst recs) else [])
                       (map fst recs))"
proof -
  note s = buildFileTree_structure [OF assms]
  from s(1) have keys: "map fst (itemMap (buildFileTree recs)) = map fst recs"
    by (simp add: wellKeyed_def)
  have "(case childrenOf (buildFileTree recs) k of None \<Rightarrow> [] | Some cs \<Rightarrow> cs)
          = (if isDirectoryRecord recs k then filter (isChildRecord recs k) (map fst recs) else [])"
    for k
    by (simp add: s(3))
  with placed_by_keys [of "buildFileTree recs"] keys assms s(2) show ?thesis
    by simp
qed

text \<open>
  Claim C2, as the code has it. For a record store (with its unique keys): the root array
  holds exactly the records whose parent identifier is 0 or is no key of the store, in
  store order. The object of a directory record has as children array exactly the records
  that name it as their parent (with a parent identifier other than 0), in store order; the
  object of a record that is no directory has no children array. So a record is placed
  (in the root array, or in the children array of its parent) exactly when its parent is
  0, absent or a directory, and no record is placed twice; a record whose parent is
  present and is not a directory is placed nowhere.
\<close>

theorem buildFileTree_placement:
  assumes "distinct (map fst recs)"
  shows "rootItems (buildFileTree recs) = filter (isRootRecord recs) (map fst recs)
    \<and> (\<forall>p. childrenOf (buildFileTree recs) p =
              (if isDirectoryRecord recs p
               then Some (filter (isChildRecord recs p) (map fst recs)) else None))
    \<and> distinct (placed (buildFileTree recs))
    \<and> set (placed (buildFileTree recs)) =
        {k. k \<in> set (map fst recs)
            \<and> (isRootRecord recs k
                \<or> (\<exists>p. isChildRecord recs p k \<and> isDirectoryRecord recs p))}"
proof -
  note s = buildFileTree_structure [OF assms]
  have dir_key: "p \<in> set (map fst recs)" if "isDirectoryRecord recs p" for p
  proof -
    from that have "map_of recs p \<noteq> None"
      by (auto simp: isDirectoryRecord_def split: option.splits)
    then show ?thesis
      by (simp add: map_of_eq_None_iff)
  qed
  have d: "distinct (placed (buildFileTree recs))"
    using assms distinct_children_lists [OF assms assms, of recs]
    by (auto simp: buildFileTree_placed [OF assms] dest: root_is_no_child split: if_splits)
  have m: "set (placed (buildFileTree recs)) =
        {k. k \<in> set (map fst recs)
            \<and> (isRootRecord recs k
                \<or> (\<exists>p. isChildRecord recs p k \<and> isDirectoryRecord recs p))}"
    using dir_key
    by (auto simp: buildFileTree_placed [OF assms] split: if_splits)
  from s(2) s(3) d m show ?thesis
    by blast
qed

theorem buildFileTree_placement_witness:
  "distinct (map fst orderedStore)
   \<and> rootItems (buildFileTree orderedStore)
       = filter (isRootRecord orderedStore) (map fst orderedStore)
   \<and> childrenOf (buildFileTree orderedStore) 1
       = (if isDirectoryRecord orderedStore 1
          then Some (filter (isChildRecord orderedStore 1) (map fst orderedStore)) else None)
   \<and> distinct (placed (buildFileTree orderedStore))
   \<and> filter (isRootRecord orderedStore) (map fst orderedStore) = [1, 3]
   \<and> isDirectoryRecord orderedStore 1
   \<and> filter (isChildRecord orderedStore 1) (map fst orderedStore) = [2]"
proof -
  have d: "distinct (map fst orderedStore)"
    by (simp add: orderedStore_def)
  have r: "filter (isRootRecord orderedStore) (map fst orderedStore) = [1, 3]"
    by (simp add: orderedStore_def isRootRecord_def exampleRecord_def)
  have i: "isDirectoryRecord orderedStore 1"
    by (simp add: orderedStore_def isDirectoryRecord_def exampleRecord_def)
  have c: "filter (isChildRecord orderedStore 1) (map fst orderedStore) = [2]"
    by (simp add: orderedStore_def isChildRecord_def exampleRecord_def)
  from buildFileTree_placement [OF d] d r i c show ?thesis
    by blast
qed

text \<open>
  The claim as stated fails for a record whose parent is present and is a file: in the
  store of the file \<open>a\<close> (identifier 1) and the file \<open>b\<close> (identifier 2, parent 1), the
  record 2 is in no array of the result.
\<close>

theorem buildFileTree_placement_counterexample:
  "2 \<in> set (map fst fileParentStore)
   \<and> rootItems (buildFileTree fileParentStore) = [1]
   \<and> childrenOf (buildFileTree fileParentStore) 1 = None
   \<and> 2 \<notin> set (placed (buildFileTree fileParentStore))"
  by code_simp

subsection \<open>Paths\<close>

text \<open>
  The builder writes the path of an item when it visits the item, from the path its
  parent has at that moment. When the store is parent-first, the parent was visited
  before and its path is final: the paths of all placed nodes are linked.
\<close>

lemma linkItem_nameOf:
  "nameOf (linkItem recs t fid) k = nameOf t k"
  by (auto simp: linkItem_def nameOf_def Let_def AList.update_conv' setPath_def
      split: option.splits)

lemma linkItem_pathOf_other:
  "k \<noteq> fid \<Longrightarrow> pathOf (linkItem recs t fid) k = pathOf t k"
  by (auto simp: linkItem_def pathOf_def Let_def AList.update_conv' setPath_def
      split: option.splits)

lemma linkItem_pathOf_root:
  assumes inv: "wellKeyed recs t" and "isRootRecord recs fid"
  shows "pathOf (linkItem recs t fid) fid = ''/'' @ nameOf t fid"
  using assms(2) wellKeyed_present [OF inv]
  by (auto simp: linkItem_def pathOf_def nameOf_def isRootRecord_def Let_def AList.update_conv'
      setPath_def split: option.splits dest: wellKeyed_record [OF inv])

lemma linkItem_pathOf_child:
  assumes inv: "wellKeyed recs t" and "isChildRecord recs p fid" and "isDirectoryRecord recs p"
    and "p \<noteq> fid"
  shows "pathOf (linkItem recs t fid) fid = pathOf t p @ ''/'' @ nameOf t fid"
proof -
  from assms(2) obtain r where r: "map_of recs fid = Some r" "parentId r = p" "p \<noteq> 0"
    by (auto simp: isChildRecord_def split: option.splits)
  from assms(3) obtain rp where rp: "map_of recs p = Some rp" "isDirectory rp"
    by (auto simp: isDirectoryRecord_def split: option.splits)
  from wellKeyed_record [OF inv r(1)] obtain item where item: "map_of (itemMap t) fid = Some item"
    by blast
  from wellKeyed_record [OF inv rp(1)] obtain parent where parent: "map_of (itemMap t) p = Some parent"
    by blast
  from inv parent rp have "node_children parent \<noteq> None"
    by (auto simp: wellKeyed_def)
  then obtain cs where cs: "node_children parent = Some cs" by auto
  from r rp item parent cs assms(4) show ?thesis
    by (simp add: linkItem_def pathOf_def nameOf_def Let_def AList.update_conv' setPath_def)
qed

lemma linkItem_fold_wellKeyed:
  assumes "wellKeyed recs t" and "set ks \<subseteq> set (map fst recs)"
  shows "wellKeyed recs (foldl (linkItem recs) t ks)"
  using linkItem_fold [OF assms, of 0] by simp

lemma paths_prefix:
  assumes d: "distinct (map fst recs)" and pfst: "parentFirst recs" and init: "wellKeyed recs t0"
  shows "map fst recs = xs @ rest \<Longrightarrow> pathsLinked recs (foldl (linkItem recs) t0 xs) xs"
proof (induction xs arbitrary: rest rule: rev_induct)
  case Nil
  then show ?case by (simp add: pathsLinked_def)
next
  case (snoc x xs)
  let ?t = "foldl (linkItem recs) t0 xs"
  let ?t' = "linkItem recs ?t x"
  from snoc.prems have keys: "map fst recs = xs @ x # rest" by simp
  from snoc.IH [OF keys] have ih: "pathsLinked recs ?t xs" .
  from keys have "set xs \<subseteq> set (map fst recs)" by auto
  from linkItem_fold_wellKeyed [OF init this] have wk: "wellKeyed recs ?t" .
  from d keys have x_new: "x \<notin> set xs" by auto
  from keys have x_key: "x \<in> set (map fst recs)" by auto
  have "takeWhile (\<lambda>y. y \<noteq> x) (xs @ x # rest) = xs @ takeWhile (\<lambda>y. y \<noteq> x) (x # rest)"
    using x_new by (intro takeWhile_append2) auto
  then have before_x: "takeWhile (\<lambda>y. y \<noteq> x) (map fst recs) = xs"
    by (simp add: keys)
  have before: "set (takeWhile (\<lambda>y. y \<noteq> k) (map fst recs)) \<subseteq> set xs" if "k \<in> set xs" for k
    using that by (auto simp: keys takeWhile_append1 dest: set_takeWhileD)
  have old: "(isRootRecord recs k \<longrightarrow> pathOf ?t' k = ''/'' @ nameOf ?t' k)
        \<and> (\<forall>p. isChildRecord recs p k \<longrightarrow> isDirectoryRecord recs p \<longrightarrow>
               pathOf ?t' k = pathOf ?t' p @ ''/'' @ nameOf ?t' k)" if k: "k \<in> set xs" for k
  proof -
    from k x_new have kx: "k \<noteq> x" by auto
    from k keys have kk: "k \<in> set (map fst recs)" by auto
    have "p \<noteq> x" if "isChildRecord recs p k" "isDirectoryRecord recs p" for p
    proof -
      from pfst kk that have "p \<in> set (takeWhile (\<lambda>y. y \<noteq> k) (map fst recs))"
        by (simp add: parentFirst_def)
      with before [OF k] x_new show ?thesis by auto
    qed
    with ih k kx show ?thesis
      by (simp add: pathsLinked_def linkItem_nameOf linkItem_pathOf_other)
  qed
  have new: "(isRootRecord recs x \<longrightarrow> pathOf ?t' x = ''/'' @ nameOf ?t' x)
        \<and> (\<forall>p. isChildRecord recs p x \<longrightarrow> isDirectoryRecord recs p \<longrightarrow>
               pathOf ?t' x = pathOf ?t' p @ ''/'' @ nameOf ?t' x)"
  proof (intro conjI allI impI)
    assume "isRootRecord recs x"
    from linkItem_pathOf_root [OF wk this] show "pathOf ?t' x = ''/'' @ nameOf ?t' x"
      by (simp add: linkItem_nameOf)
  next
    fix p
    assume c: "isChildRecord recs p x" and dir: "isDirectoryRecord recs p"
    from pfst x_key c dir have "p \<in> set (takeWhile (\<lambda>y. y \<noteq> x) (map fst recs))"
      by (simp add: parentFirst_def)
    with before_x x_new have px: "p \<noteq> x" by auto
    from linkItem_pathOf_child [OF wk c dir px] px
    show "pathOf ?t' x = pathOf ?t' p @ ''/'' @ nameOf ?t' x"
      by (simp add: linkItem_nameOf linkItem_pathOf_other)
  qed
  from old new show ?case
    by (auto simp: pathsLinked_def)
qed

lemma buildFileTree_paths_parent_first:
  assumes d: "distinct (map fst recs)" and pfst: "parentFirst recs"
  shows "(\<forall>k\<in>set (rootItems (buildFileTree recs)).
            pathOf (buildFileTree recs) k = ''/'' @ nameOf (buildFileTree recs) k)
    \<and> (\<forall>p cs. childrenOf (buildFileTree recs) p = Some cs \<longrightarrow>
          (\<forall>k\<in>set cs. pathOf (buildFileTree recs) k
             = pathOf (buildFileTree recs) p @ ''/'' @ nameOf (buildFileTree recs) k))"
proof -
  let ?t0 = "\<lparr> rootItems = [], itemMap = createItems recs \<rparr>"
  have b: "buildFileTree recs = foldl (linkItem recs) ?t0 (map fst recs)"
    by (simp add: buildFileTree_def Let_def keys_createItems [OF d])
  from paths_prefix [OF d pfst wellKeyed_createItems [OF d], of "map fst recs" "[]"]
  have pl: "pathsLinked recs (buildFileTree recs) (map fst recs)"
    by (simp add: b)
  note s = buildFileTree_structure [OF d]
  show ?thesis
  proof (intro conjI ballI allI impI)
    fix k assume "k \<in> set (rootItems (buildFileTree recs))"
    with s(2) have "k \<in> set (map fst recs)" "isRootRecord recs k" by auto
    with pl show "pathOf (buildFileTree recs) k = ''/'' @ nameOf (buildFileTree recs) k"
      by (auto simp: pathsLinked_def)
  next
    fix p cs k
    assume "childrenOf (buildFileTree recs) p = Some cs" and "k \<in> set cs"
    with s(3) [of p] have "isDirectoryRecord recs p" "k \<in> set (map fst recs)" "isChildRecord recs p k"
      by (auto split: if_splits)
    with pl show "pathOf (buildFileTree recs) k
             = pathOf (buildFileTree recs) p @ ''/'' @ nameOf (buildFileTree recs) k"
      by (auto simp: pathsLinked_def)
  qed
qed

lemma orderedStore_parentFirst: "distinct (map fst orderedStore) \<and> parentFirst orderedStore"
  by (auto simp: parentFirst_def orderedStore_def isChildRecord_def isDirectoryRecord_def
      exampleRecord_def split: if_splits)

text \<open>
  Claim C3 at the store in which the file \<open>b\<close> (identifier 2, parent 1) was stored before
  its parent, the directory \<open>a\<close> (identifier 1). The builder visits \<open>b\<close> first, while the
  path of \<open>a\<close> is still empty: \<open>b\<close> becomes the child of \<open>a\<close> with the path \<open>/b\<close>, and
  \<open>a\<close> then gets the path \<open>/a\<close>. The claim asks for \<open>/a/b\<close>.
\<close>

theorem buildFileTree_child_before_parent:
  "rootItems (buildFileTree childFirstStore) = [1]
   \<and> childrenOf (buildFileTree childFirstStore) 1 = Some [2]
   \<and> pathOf (buildFileTree childFirstStore) 1 = ''/a''
   \<and> nameOf (buildFileTree childFirstStore) 2 = ''b''
   \<and> pathOf (buildFileTree childFirstStore) 2 = ''/b''
   \<and> pathOf (buildFileTree childFirstStore) 2
       \<noteq> pathOf (buildFileTree childFirstStore) 1 @ ''/'' @ nameOf (buildFileTree childFirstStore) 2"
  by code_simp

subsection \<open>The stores the parser builds\<close>

text \<open>
  Every stage keeps the keys of the record store unique, so every tree \<open>parseImage\<close>
  returns is built from a store with unique keys.
\<close>

lemma andThen_Inr: "andThen m f = Inr y \<Longrightarrow> \<exists>x. m = Inr x \<and> f x = Inr y"
  by (cases m) (simp_all add: andThen_def)

lemma parseFileRecord_uniqueKeys:
  assumes "parseFileRecord pf buf offset st = Inr st'" and "uniqueKeys st"
  shows "uniqueKeys st'"
proof -
  from assms(1) obtain k r where "st' = st\<lparr>fileRecords := AList.update k r (fileRecords st)\<rparr>"
    unfolding parseFileRecord_def by (auto dest!: andThen_Inr)
  with assms(2) show ?thesis
    by (simp add: uniqueKeys_def AList.distinct_update)
qed

lemma foldl_update_distinct:
  "distinct (map fst m) \<Longrightarrow> distinct (map fst (foldl (\<lambda>m e. AList.update (f e) (g e) m) m es))"
  by (induction es arbitrary: m) (simp_all add: AList.distinct_update)

lemma generateMockFileSystem_uniqueKeys: "uniqueKeys st \<Longrightarrow> uniqueKeys (generateMockFileSystem pf st)"
  by (simp add: uniqueKeys_def generateMockFileSystem_def foldl_update_distinct AList.distinct_update)

lemma metadataLoop_uniqueKeys:
  "metadataLoop pf buf i currentOffset st = Inr st' \<Longrightarrow> uniqueKeys st \<Longrightarrow> uniqueKeys st'"
proof (induction pf buf i currentOffset st rule: metadataLoop.induct)
  case (1 pf buf i currentOffset st)
  show ?case
  proof (cases "i < 1000 \<and> int currentOffset < int (length buf) - 128")
    case False
    with "1.prems" show ?thesis
      by (simp add: metadataLoop.simps)
  next
    case True
    with "1.prems"(1) obtain entryType entrySize st1 where
      a: "getUint32 buf currentOffset = Inr entryType"
      and b: "getUint32 buf (currentOffset + 4) = Inr entrySize"
      and c: "(if entryType = 0x30 then parseFileRecord pf buf currentOffset st else Inr st) = Inr st1"
      and d: "metadataLoop pf buf (i + 1) (currentOffset + max entrySize 128) st1 = Inr st'"
      by (subst (asm) metadataLoop.simps) (auto dest!: andThen_Inr)
    from c "1.prems"(2) have "uniqueKeys st1"
      by (auto dest: parseFileRecord_uniqueKeys split: if_splits)
    from "1.IH" [OF True d this] show ?thesis .
  qed
qed

lemma leafLoop_uniqueKeys:
  "leafLoop pf buf keyCount i entryOffset st = Inr st' \<Longrightarrow> uniqueKeys st \<Longrightarrow> uniqueKeys st'"
proof (induction pf buf keyCount i entryOffset st rule: leafLoop.induct)
  case (1 pf buf keyCount i entryOffset st)
  show ?case
  proof (cases "i < keyCount \<and> i < 100")
    case False
    with "1.prems" show ?thesis
      by (simp add: leafLoop.simps)
  next
    case True
    with "1.prems"(1) obtain entrySize st1 where
      a: "getUint16 buf entryOffset = Inr entrySize"
      and c: "(if 0 < entrySize \<and> entrySize < 1024
               then parseFileRecord pf buf entryOffset st else Inr st) = Inr st1"
      and d: "leafLoop pf buf keyCount (i + 1) (entryOffset + max entrySize 32) st1 = Inr st'"
      by (subst (asm) leafLoop.simps) (auto dest!: andThen_Inr)
    from c "1.prems"(2) have "uniqueKeys st1"
      by (auto dest: parseFileRecord_uniqueKeys split: if_splits)
    from "1.IH" [OF True d this] show ?thesis .
  qed
qed

lemma traverse_uniqueKeys:
  "traverseBTreeNode pf buf sb blockNumber depth st = Inr st' \<Longrightarrow> uniqueKeys st \<Longrightarrow> uniqueKeys st'"
  "traverseChildren pf buf sb childOffset keyCount depth i st = Inr st'' \<Longrightarrow> uniqueKeys st
     \<Longrightarrow> uniqueKeys st''"
proof (induction pf buf sb blockNumber depth st and pf buf sb childOffset keyCount depth i st
        arbitrary: st' and st'' rule: traverseBTreeNode_traverseChildren.induct)
  case (1 pf buf sb blockNumber depth st)
  let ?offset = "blockNumber * (if blockSize sb = 0 then 4096 else blockSize sb)"
  show ?case
  proof (cases "10 < depth \<or> length buf \<le> ?offset")
    case True
    with "1.prems" show ?thesis
      by (auto simp: traverseBTreeNode.simps Let_def split: if_splits)
  next
    case False
    with "1.prems"(1) obtain nodeHeader :: nat and keyCount where
      r: "(if bit nodeHeader 0 then leafLoop pf buf keyCount 0 (?offset + 16) st
           else traverseChildren pf buf sb (?offset + 16 + keyCount * 8) keyCount depth 0 st)
          = Inr st'"
      by (subst (asm) traverseBTreeNode.simps) (auto simp: Let_def dest!: andThen_Inr)
    show ?thesis
    proof (cases "bit nodeHeader 0")
      case True
      with r "1.prems"(2) show ?thesis
        by (auto dest: leafLoop_uniqueKeys)
    next
      case leaf: False
      with r have "traverseChildren pf buf sb (?offset + 16 + keyCount * 8) keyCount depth 0 st
                     = Inr st'"
        by simp
      from "1.IH" [OF _ refl _ leaf this "1.prems"(2)] False show ?thesis
        by simp
    qed
  qed
next
  case (2 pf buf sb childOffset keyCount depth i st)
  show ?case
  proof (cases "i \<le> keyCount \<and> i < 50")
    case False
    with "2.prems" show ?thesis
      by (simp add: traverseChildren.simps)
  next
    case True
    with "2.prems"(1) obtain childBlock st1 where
      c: "(if 0 < childBlock \<and> childBlock < totalBlocks sb
           then traverseBTreeNode pf buf sb childBlock (depth + 1) st else Inr st) = Inr st1"
      and d: "traverseChildren pf buf sb childOffset keyCount depth (i + 1) st1 = Inr st''"
      by (subst (asm) traverseChildren.simps) (auto dest!: andThen_Inr)
    have "uniqueKeys st1"
    proof (cases "0 < childBlock \<and> childBlock < totalBlocks sb")
      case False
      with c "2.prems"(2) show ?thesis by simp
    next
      case inside: True
      with c have "traverseBTreeNode pf buf sb childBlock (depth + 1) st = Inr st1"
        by simp
      from "2.IH"(1) [OF True inside this "2.prems"(2)] show ?thesis .
    qed
    from "2.IH"(2) [OF True d this] show ?thesis .
  qed
qed

lemma parseSuperblock_records:
  "parseSuperblock pf buf st = Inr st' \<Longrightarrow> fileRecords st' = fileRecords st"
  unfolding parseSuperblock_def Let_def
  by (auto dest!: andThen_Inr split: if_splits)

lemma parseImage_store:
  assumes "parseImage pf buf = Inr t"
  shows "\<exists>recs. distinct (map fst recs) \<and> t = buildFileTree recs"
proof -
  from assms obtain st1 st2 st3 where
    a: "parseSuperblock pf buf newParser = Inr st1"
    and b: "parseMetadataTable pf buf st1 = Inr st2"
    and c: "traverseBTree pf buf st2 = Inr st3"
    and t: "t = buildFileTree (fileRecords st3)"
    unfolding parseImage_def by (auto simp: Let_def dest!: andThen_Inr split: sum.splits)
  from parseSuperblock_records [OF a] have u1: "uniqueKeys st1"
    by (simp add: uniqueKeys_def newParser_def)
  from b obtain sb where sb: "superblock st1 = Some sb"
    by (auto simp: parseMetadataTable_def split: option.splits)
  have u2: "uniqueKeys st2"
  proof (cases "length buf < metadataTableBlock sb * blockSize sb + 1024
                \<or> str_includes (signature sb) ''Mock''")
    case True
    with b sb have "st2 = generateMockFileSystem pf st1"
      by (auto simp: parseMetadataTable_def Let_def)
    with u1 show ?thesis
      by (simp add: generateMockFileSystem_uniqueKeys)
  next
    case False
    with b sb obtain x where
      x: "metadataLoop pf buf 0 (metadataTableBlock sb * blockSize sb) st1 = Inr x"
      and st2: "st2 = (if length (fileRecords x) = 0 then generateMockFileSystem pf x else x)"
      by (auto simp: parseMetadataTable_def Let_def dest!: andThen_Inr split: if_splits)
    from metadataLoop_uniqueKeys [OF x u1] st2 show ?thesis
      by (simp add: generateMockFileSystem_uniqueKeys)
  qed
  from c u2 have "uniqueKeys st3"
    unfolding traverseBTree_def
    by (auto dest: traverse_uniqueKeys(1) split: option.splits)
  with t show ?thesis
    by (auto simp: uniqueKeys_def)
qed

subsection \<open>The items the builder hands over\<close>

text \<open>
  Every item the builder places got its path in the step that placed it, as a prefix
  followed by a slash and its name, and keeps the metadata it was created with. So every
  node of the forest of a store without fingerprints has the shape \<open>builtItem\<close>, and
  so has every node of the forest \<open>parseImage\<close> returns.
\<close>

lemma endsWith_append: "endsWith (pre @ t) t"
  by (simp add: endsWith_def)

lemma linkItem_metaOf: "metaOf (linkItem recs t fid) k = metaOf t k"
  by (auto simp: linkItem_def metaOf_def Let_def AList.update_conv' setPath_def
      split: option.splits)

lemma linkItem_fold_metaOf: "metaOf (foldl (linkItem recs) t ks) k = metaOf t k"
  by (induction ks arbitrary: t) (simp_all add: linkItem_metaOf)

lemma linkItem_fold_nameOf: "nameOf (foldl (linkItem recs) t ks) k = nameOf t k"
  by (induction ks arbitrary: t) (simp_all add: linkItem_nameOf)

lemma linkItem_fold_pathOf: "k \<notin> set ks \<Longrightarrow> pathOf (foldl (linkItem recs) t ks) k = pathOf t k"
  by (induction ks arbitrary: t) (simp_all add: linkItem_pathOf_other)

lemma linkItem_path_shape:
  assumes inv: "wellKeyed recs t"
    and placed: "isRootRecord recs fid \<or> (\<exists>p. isChildRecord recs p fid \<and> isDirectoryRecord recs p)"
  shows "\<exists>pre. pathOf (linkItem recs t fid) fid = pre @ ''/'' @ nameOf t fid"
proof (cases "isRootRecord recs fid")
  case True
  from linkItem_pathOf_root [OF inv True] show ?thesis by simp
next
  case False
  with placed obtain p where c: "isChildRecord recs p fid" and dir: "isDirectoryRecord recs p"
    by blast
  from c obtain r where r: "map_of recs fid = Some r" "parentId r = p" "p \<noteq> 0"
    by (auto simp: isChildRecord_def split: option.splits)
  from dir obtain rp where rp: "map_of recs p = Some rp" "isDirectory rp"
    by (auto simp: isDirectoryRecord_def split: option.splits)
  from wellKeyed_record [OF inv r(1)] obtain item where item: "map_of (itemMap t) fid = Some item"
    by blast
  from wellKeyed_record [OF inv rp(1)] obtain parent where parent: "map_of (itemMap t) p = Some parent"
    by blast
  from inv parent rp have "node_children parent \<noteq> None"
    by (auto simp: wellKeyed_def)
  then obtain cs where cs: "node_children parent = Some cs" by auto
  show ?thesis
  proof (cases "p = fid")
    case False
    from linkItem_pathOf_child [OF inv c dir False] show ?thesis by blast
  next
    case True
    with r rp item parent cs have
      "pathOf (linkItem recs t fid) fid = path (node_info parent) @ ''/'' @ nameOf t fid"
      by (simp add: linkItem_def pathOf_def nameOf_def Let_def AList.update_conv' setPath_def)
    then show ?thesis by blast
  qed
qed

lemma paths_shape_prefix:
  assumes d: "distinct (map fst recs)" and init: "wellKeyed recs t0"
  shows "map fst recs = xs @ rest \<Longrightarrow>
     \<forall>k\<in>set xs. isRootRecord recs k \<or> (\<exists>p. isChildRecord recs p k \<and> isDirectoryRecord recs p) \<longrightarrow>
        (\<exists>pre. pathOf (foldl (linkItem recs) t0 xs) k = pre @ ''/'' @ nameOf t0 k)"
proof (induction xs arbitrary: rest rule: rev_induct)
  case Nil
  then show ?case by simp
next
  case (snoc x xs)
  let ?t = "foldl (linkItem recs) t0 xs"
  from snoc.prems have keys: "map fst recs = xs @ x # rest" by simp
  note ih = snoc.IH [OF keys]
  from keys have "set xs \<subseteq> set (map fst recs)" by auto
  from linkItem_fold_wellKeyed [OF init this] have wk: "wellKeyed recs ?t" .
  from d keys have x_new: "x \<notin> set xs" by auto
  show ?case
  proof (intro ballI impI)
    fix k
    assume k: "k \<in> set (xs @ [x])"
      and pl: "isRootRecord recs k \<or> (\<exists>p. isChildRecord recs p k \<and> isDirectoryRecord recs p)"
    show "\<exists>pre. pathOf (foldl (linkItem recs) t0 (xs @ [x])) k = pre @ ''/'' @ nameOf t0 k"
    proof (cases "k = x")
      case True
      from linkItem_path_shape [OF wk pl [unfolded True]] True show ?thesis
        by (simp add: linkItem_fold_nameOf)
    next
      case False
      with k have "k \<in> set xs" by simp
      with ih pl obtain pre where "pathOf ?t k = pre @ ''/'' @ nameOf t0 k"
        by blast
      with False show ?thesis
        by (simp add: linkItem_pathOf_other)
    qed
  qed
qed

lemma builtForest_append: "builtForest (xs @ ys) \<longleftrightarrow> builtForest xs \<and> builtForest ys"
  by (simp add: builtForest_def preorder_append)

lemma builtForest_concat: "(\<forall>xs\<in>set xss. builtForest xs) \<Longrightarrow> builtForest (concat xss)"
  by (induction xss) (simp_all add: builtForest_append, simp add: builtForest_def)

lemma builtForest_single:
  "builtForest [FileSystemItem nfo ch]
     \<longleftrightarrow> builtItem nfo \<and> (case ch of None \<Rightarrow> True | Some cs \<Rightarrow> builtForest cs)"
  by (cases ch) (simp_all add: builtForest_def)

lemma children_placed:
  assumes "map_of (itemMap t) k = Some nd" and "node_children nd = Some cs"
  shows "set cs \<subseteq> set (placed t)"
proof -
  from assms(1) have "(k, nd) \<in> set (itemMap t)" by (rule map_of_SomeD)
  with assms(2) show ?thesis
    by (force simp: placed_def)
qed

lemma materialize_built:
  assumes built: "\<forall>k\<in>set (placed t). \<exists>nd. map_of (itemMap t) k = Some nd \<and> builtItem (node_info nd)"
  shows "set ks \<subseteq> set (placed t) \<Longrightarrow> builtForest (materialize n t ks)"
proof (induction n arbitrary: ks)
  case 0
  show ?case by (simp add: builtForest_def)
next
  case (Suc n)
  have "builtForest (case map_of (itemMap t) k of
                       None \<Rightarrow> []
                     | Some nd \<Rightarrow>
                         [FileSystemItem (node_info nd)
                            (map_option (materialize n t) (node_children nd))])"
    if k: "k \<in> set ks" for k
  proof (cases "map_of (itemMap t) k")
    case None
    then show ?thesis by (simp add: builtForest_def)
  next
    case (Some nd)
    from k Suc.prems have "k \<in> set (placed t)" by auto
    with built Some have b: "builtItem (node_info nd)" by auto
    have "builtForest (materialize n t cs)" if "node_children nd = Some cs" for cs
      using Suc.IH [OF children_placed [OF Some that]] .
    with b Some show ?thesis
      by (cases "node_children nd") (simp_all add: builtForest_single)
  qed
  then show ?case
    by (simp add: builtForest_concat)
qed

lemma newItem_meta:
  "metadata (node_info (newItem k r)) = Some m \<Longrightarrow>
     meta_md5Hash m = md5Hash r \<and> meta_sha1Hash m = sha1Hash r"
  by (auto simp: newItem_def)

lemma buildFileTree_built:
  assumes d: "distinct (map fst recs)" and u: "unhashed recs"
  shows "\<forall>k\<in>set (placed (buildFileTree recs)).
           \<exists>nd. map_of (itemMap (buildFileTree recs)) k = Some nd \<and> builtItem (node_info nd)"
proof
  fix k
  assume k: "k \<in> set (placed (buildFileTree recs))"
  let ?init = "\<lparr> rootItems = [], itemMap = createItems recs \<rparr>"
  let ?t = "buildFileTree recs"
  have b: "?t = foldl (linkItem recs) ?init (map fst recs)"
    by (simp add: buildFileTree_def Let_def keys_createItems [OF d])
  from k have key: "k \<in> set (map fst recs)"
    and pl: "isRootRecord recs k \<or> (\<exists>p. isChildRecord recs p k \<and> isDirectoryRecord recs p)"
    by (auto simp: buildFileTree_placed [OF d] split: if_splits)
  from key obtain r where r: "map_of recs k = Some r"
    by (cases "map_of recs k") (auto simp: map_of_eq_None_iff)
  from wellKeyed_record [OF buildFileTree_structure(1) [OF d] r] obtain nd where
    nd: "map_of (itemMap ?t) k = Some nd" by blast
  from paths_shape_prefix [OF d wellKeyed_createItems [OF d], of "map fst recs" "[]"] key pl
  obtain pre where "pathOf ?t k = pre @ ''/'' @ nameOf ?init k"
    by (auto simp: b)
  with nd have "path (node_info nd) = pre @ ''/'' @ name (node_info nd)"
    using linkItem_fold_nameOf [of recs ?init "map fst recs" k]
    by (simp add: pathOf_def nameOf_def flip: b)
  then have shape: "endsWith (path (node_info nd)) (''/'' @ name (node_info nd))"
    using endsWith_append [of pre "''/'' @ name (node_info nd)"] by simp
  from r have "(k, r) \<in> set recs" by (rule map_of_SomeD)
  with u have hr: "md5Hash r = None \<and> sha1Hash r = None"
    by (auto simp: unhashed_def list_all_iff)
  have "metaOf ?t k = metaOf ?init k"
    by (simp add: b linkItem_fold_metaOf)
  with nd r have "metadata (node_info nd) = metadata (node_info (newItem k r))"
    by (simp add: metaOf_def map_of_createItems [OF d])
  with hr have "case metadata (node_info nd) of
                  None \<Rightarrow> True
                | Some m \<Rightarrow> meta_md5Hash m = None \<and> meta_sha1Hash m = None"
    by (auto simp: newItem_def split: option.splits)
  with shape nd show "\<exists>nd. map_of (itemMap ?t) k = Some nd \<and> builtItem (node_info nd)"
    by (simp add: builtItem_def)
qed

lemma buildFileTree_builtForest:
  assumes "distinct (map fst recs)" and "unhashed recs"
  shows "builtForest (materialize n (buildFileTree recs) (rootItems (buildFileTree recs)))"
proof -
  have "set (rootItems (buildFileTree recs)) \<subseteq> set (placed (buildFileTree recs))"
    by (simp add: placed_def)
  from materialize_built [OF buildFileTree_built [OF assms] this] show ?thesis .
qed

lemma update_unhashed:
  "unhashed al \<Longrightarrow> md5Hash r = None \<Longrightarrow> sha1Hash r = None \<Longrightarrow> unhashed (AList.update k r al)"
  by (induction al) (auto simp: unhashed_def)

lemma parseFileRecord_unhashed:
  assumes "parseFileRecord pf buf offset st = Inr st'" and "unhashed (fileRecords st)"
  shows "unhashed (fileRecords st')"
proof -
  from assms(1) obtain k r where "st' = st\<lparr>fileRecords := AList.update k r (fileRecords st)\<rparr>"
    and "md5Hash r = None" and "sha1Hash r = None"
    unfolding parseFileRecord_def by (auto dest!: andThen_Inr)
  with assms(2) show ?thesis
    by (simp add: update_unhashed)
qed

lemma foldl_update_unhashed:
  "unhashed m \<Longrightarrow> \<forall>e\<in>set es. md5Hash (g e) = None \<and> sha1Hash (g e) = None \<Longrightarrow>
     unhashed (foldl (\<lambda>m e. AList.update (f e) (g e) m) m es)"
  by (induction es arbitrary: m) (simp_all add: update_unhashed)

lemma mockRecord_unhashed: "md5Hash (mockRecord pf e) = None \<and> sha1Hash (mockRecord pf e) = None"
  by (simp add: mockRecord_def split: prod.splits)

lemma generateMockFileSystem_unhashed:
  "unhashed (fileRecords st) \<Longrightarrow> unhashed (fileRecords (generateMockFileSystem pf st))"
  by (simp add: generateMockFileSystem_def foldl_update_unhashed update_unhashed mockRecord_unhashed)

lemma metadataLoop_unhashed:
  "metadataLoop pf buf i currentOffset st = Inr st' \<Longrightarrow> unhashed (fileRecords st) \<Longrightarrow> unhashed (fileRecords st')"
proof (induction pf buf i currentOffset st rule: metadataLoop.induct)
  case (1 pf buf i currentOffset st)
  show ?case
  proof (cases "i < 1000 \<and> int currentOffset < int (length buf) - 128")
    case False
    with "1.prems" show ?thesis
      by (simp add: metadataLoop.simps)
  next
    case True
    with "1.prems"(1) obtain entryType entrySize st1 where
      a: "getUint32 buf currentOffset = Inr entryType"
      and b: "getUint32 buf (currentOffset + 4) = Inr entrySize"
      and c: "(if entryType = 0x30 then parseFileRecord pf buf currentOffset st else Inr st) = Inr st1"
      and d: "metadataLoop pf buf (i + 1) (currentOffset + max entrySize 128) st1 = Inr st'"
      by (subst (asm) metadataLoop.simps) (auto dest!: andThen_Inr)
    from c "1.prems"(2) have "unhashed (fileRecords st1)"
      by (auto dest: parseFileRecord_unhashed split: if_splits)
    from "1.IH" [OF True d this] show ?thesis .
  qed
qed

lemma leafLoop_unhashed:
  "leafLoop pf buf keyCount i entryOffset st = Inr st' \<Longrightarrow> unhashed (fileRecords st) \<Longrightarrow> unhashed (fileRecords st')"
proof (induction pf buf keyCount i entryOffset st rule: leafLoop.induct)
  case (1 pf buf keyCount i entryOffset st)
  show ?case
  proof (cases "i < keyCount \<and> i < 100")
    case False
    with "1.prems" show ?thesis
      by (simp add: leafLoop.simps)
  next
    case True
    with "1.prems"(1) obtain entrySize st1 where
      a: "getUint16 buf entryOffset = Inr entrySize"
      and c: "(if 0 < entrySize \<and> entrySize < 1024
               then parseFileRecord pf buf entryOffset st else Inr st) = Inr st1"
      and d: "leafLoop pf buf keyCount (i + 1) (entryOffset + max entrySize 32) st1 = Inr st'"
      by (subst (asm) leafLoop.simps) (auto dest!: andThen_Inr)
    from c "1.prems"(2) have "unhashed (fileRecords st1)"
      by (auto dest: parseFileRecord_unhashed split: if_splits)
    from "1.IH" [OF True d this] show ?thesis .
  qed
qed

lemma traverse_unhashed:
  "traverseBTreeNode pf buf sb blockNumber depth st = Inr st' \<Longrightarrow> unhashed (fileRecords st) \<Longrightarrow> unhashed (fileRecords st')"
  "traverseChildren pf buf sb childOffset keyCount depth i st = Inr st'' \<Longrightarrow> unhashed (fileRecords st)
     \<Longrightarrow> unhashed (fileRecords st'')"
proof (induction pf buf sb blockNumber depth st and pf buf sb childOffset keyCount depth i st
        arbitrary: st' and st'' rule: traverseBTreeNode_traverseChildren.induct)
  case (1 pf buf sb blockNumber depth st)
  let ?offset = "blockNumber * (if blockSize sb = 0 then 4096 else blockSize sb)"
  show ?case
  proof (cases "10 < depth \<or> length buf \<le> ?offset")
    case True
    with "1.prems" show ?thesis
      by (auto simp: traverseBTreeNode.simps Let_def split: if_splits)
  next
    case False
    with "1.prems"(1) obtain nodeHeader :: nat and keyCount where
      r: "(if bit nodeHeader 0 then leafLoop pf buf keyCount 0 (?offset + 16) st
           else traverseChildren pf buf sb (?offset + 16 + keyCount * 8) keyCount depth 0 st)
          = Inr st'"
      by (subst (asm) traverseBTreeNode.simps) (auto simp: Let_def dest!: andThen_Inr)
    show ?thesis
    proof (cases "bit nodeHeader 0")
      case True
      with r "1.prems"(2) show ?thesis
        by (auto dest: leafLoop_unhashed)
    next
      case leaf: False
      with r have "traverseChildren pf buf sb (?offset + 16 + keyCount * 8) keyCount depth 0 st
                     = Inr st'"
        by simp
      from "1.IH" [OF _ refl _ leaf this "1.prems"(2)] False show ?thesis
        by simp
    qed
  qed
next
  case (2 pf buf sb childOffset keyCount depth i st)
  show ?case
  proof (cases "i \<le> keyCount \<and> i < 50")
    case False
    with "2.prems" show ?thesis
      by (simp add: traverseChildren.simps)
  next
    case True
    with "2.prems"(1) obtain childBlock st1 where
      c: "(if 0 < childBlock \<and> childBlock < totalBlocks sb
           then traverseBTreeNode pf buf sb childBlock (depth + 1) st else Inr st) = Inr st1"
      and d: "traverseChildren pf buf sb childOffset keyCount depth (i + 1) st1 = Inr st''"
      by (subst (asm) traverseChildren.simps) (auto dest!: andThen_Inr)
    have "unhashed (fileRecords st1)"
    proof (cases "0 < childBlock \<and> childBlock < totalBlocks sb")
      case False
      with c "2.prems"(2) show ?thesis by simp
    next
      case inside: True
      with c have "traverseBTreeNode pf buf sb childBlock (depth + 1) st = Inr st1"
        by simp
      from "2.IH"(1) [OF True inside this "2.prems"(2)] show ?thesis .
    qed
    from "2.IH"(2) [OF True d this] show ?thesis .
  qed
qed

lemma parseImage_unhashed_store:
  assumes "parseImage pf buf = Inr t"
  shows "\<exists>recs. distinct (map fst recs) \<and> unhashed recs \<and> t = buildFileTree recs"
proof -
  from assms obtain st1 st2 st3 where
    a: "parseSuperblock pf buf newParser = Inr st1"
    and b: "parseMetadataTable pf buf st1 = Inr st2"
    and c: "traverseBTree pf buf st2 = Inr st3"
    and t: "t = buildFileTree (fileRecords st3)"
    unfolding parseImage_def by (auto simp: Let_def dest!: andThen_Inr split: sum.splits)
  from parseSuperblock_records [OF a] have u1: "uniqueKeys st1" and h1: "unhashed (fileRecords st1)"
    by (simp_all add: uniqueKeys_def unhashed_def newParser_def)
  from b obtain sb where sb: "superblock st1 = Some sb"
    by (auto simp: parseMetadataTable_def split: option.splits)
  have u2: "uniqueKeys st2 \<and> unhashed (fileRecords st2)"
  proof (cases "length buf < metadataTableBlock sb * blockSize sb + 1024
                \<or> str_includes (signature sb) ''Mock''")
    case True
    with b sb have "st2 = generateMockFileSystem pf st1"
      by (auto simp: parseMetadataTable_def Let_def)
    with u1 h1 show ?thesis
      by (simp add: generateMockFileSystem_uniqueKeys generateMockFileSystem_unhashed)
  next
    case False
    with b sb obtain x where
      x: "metadataLoop pf buf 0 (metadataTableBlock sb * blockSize sb) st1 = Inr x"
      and st2: "st2 = (if length (fileRecords x) = 0 then generateMockFileSystem pf x else x)"
      by (auto simp: parseMetadataTable_def Let_def dest!: andThen_Inr split: if_splits)
    from metadataLoop_uniqueKeys [OF x u1] metadataLoop_unhashed [OF x h1] st2 show ?thesis
      by (auto intro: generateMockFileSystem_uniqueKeys generateMockFileSystem_unhashed)
  qed
  from c u2 have "uniqueKeys st3 \<and> unhashed (fileRecords st3)"
    unfolding traverseBTree_def
    by (auto dest: traverse_uniqueKeys(1) traverse_unhashed(1) split: option.splits)
  with t show ?thesis
    by (auto simp: uniqueKeys_def)
qed

lemma parseImage_builtForest:
  assumes "parseImage pf buf = Inr t"
  shows "builtForest (materialize n t (rootItems t))"
proof -
  from parseImage_unhashed_store [OF assms] obtain recs where
    "distinct (map fst recs)" and "unhashed recs" and "t = buildFileTree recs"
    by blast
  then show ?thesis
    by (simp add: buildFileTree_builtForest)
qed

section \<open>Properties of the search engine\<close>

subsection \<open>The indexed path\<close>

text \<open>
  Claim C9 at the forest of the one file \<open>kernel32.dll\<close> and the literal query
  \<open>kern\<close>. The index holds the file under the tokens of its name and path
  (\<open>kernel32\<close>, \<open>dll\<close>, \<open>windows\<close>, \<open>system32\<close>), none of which is the token
  \<open>kern\<close> of the query: the indexed path has no candidate and returns no result. The
  scan of the same forest, with the same options, finds the file, with a match in the
  name and one in the path.
\<close>

theorem search_index_loses_substring_match:
  "search rx [kernelFile] (literalSearch ''kern'') = Some []
   \<and> map_option (map (\<lambda>r. (r_item r, length (r_matches r), r_score r)))
        (searchFrom rx (literalSearch ''kern'') [kernelFile])
       = Some [(kernelFile, 2, 17)]"
  by code_simp

subsection \<open>Literal matching returns\<close>

lemma find_Some_props: "List.find P xs = Some x \<Longrightarrow> x \<in> set xs \<and> P x"
  by (auto simp: find_Some_iff)

lemma indexOf_Some:
  assumes "indexOf text q position = Some j"
  shows "min position (length text) \<le> j" and "take (length q) (drop j text) = q"
proof -
  from assms have p: "j \<in> set [min position (length text) ..< Suc (length text)]
      \<and> take (length q) (drop j text) = q"
    unfolding indexOf_def by (rule find_Some_props)
  then show "min position (length text) \<le> j"
    by (simp del: upt_Suc)
  from p show "take (length q) (drop j text) = q"
    by simp
qed

lemma indexOf_progress:
  assumes "indexOf text q (i + 1) = Some j" and "q \<noteq> []"
  shows "i < j" and "j < length text"
proof -
  from indexOf_Some [OF assms(1)] have a: "min (i + 1) (length text) \<le> j"
    and b: "take (length q) (drop j text) = q" by auto
  from arg_cong [OF b, of length] have "length q \<le> length text - j"
    by simp
  with assms(2) show "j < length text"
    by (cases q) auto
  with a show "i < j" by simp
qed

lemma literalLoop_returns:
  assumes "q \<noteq> []"
  shows "\<exists>out. literalLoop text q index ms = Some out"
proof (induction "case index of None \<Rightarrow> 0 | Some i \<Rightarrow> Suc (length text) - i"
        arbitrary: index ms rule: less_induct)
  case less
  show ?case
  proof (cases index)
    case None
    then show ?thesis by (simp add: literalLoop.simps)
  next
    case (Some i)
    note index = Some
    show ?thesis
    proof (cases "indexOf text q (i + 1)")
      case None
      with index show ?thesis
        by (simp add: literalLoop.simps)
    next
      case (Some j)
      from indexOf_progress [OF Some assms] index
      have "(case Some j of None \<Rightarrow> 0 | Some i \<Rightarrow> Suc (length text) - i)
              < (case index of None \<Rightarrow> 0 | Some i \<Rightarrow> Suc (length text) - i)"
        by simp
      from less [OF this] index Some show ?thesis
        by (subst literalLoop.simps) simp
    qed
  qed
qed

lemma findLiteralMatches_returns: "q \<noteq> [] \<Longrightarrow> \<exists>out. findLiteralMatches text q = Some out"
  by (simp add: findLiteralMatches_def literalLoop_returns)

lemma searchText_empty: "searchText opts = [] \<longleftrightarrow> query opts = []"
  by (simp add: searchText_def toLowerCase_def)

lemma findMatches_literal_returns:
  assumes "\<not> useRegex opts \<or> compile rx (searchText opts) = None"
  shows "\<exists>ms. findMatches rx nfo opts = Some ms"
proof (cases "query opts = []")
  case True
  then show ?thesis by (simp add: findMatches_def)
next
  case False
  then have q: "searchText opts \<noteq> []" by (simp add: searchText_empty)
  have t: "findTextMatches rx s (searchText opts) (useRegex opts)
             = findLiteralMatches s (searchText opts)" for s
    using assms by (auto simp: findTextMatches_def)
  from findLiteralMatches_returns [OF q] obtain a where
    a: "findLiteralMatches (if caseSensitive opts then name nfo else toLowerCase (name nfo)) (searchText opts) = Some a"
    by blast
  from findLiteralMatches_returns [OF q] obtain b where
    b: "findLiteralMatches (if caseSensitive opts then path nfo else toLowerCase (path nfo)) (searchText opts) = Some b"
    by blast
  from False a b show ?thesis
    by (simp add: findMatches_def t)
qed

lemma searchItems_returns:
  assumes "\<not> useRegex opts \<or> compile rx (searchText opts) = None"
  shows "\<exists>st'. searchItems rx opts items st = Some st'"
  using assms
proof (induction rx opts items st rule: searchItems.induct)
  case (1 rx opts st)
  then show ?case by (simp add: searchItems.simps)
next
  case (2 rx opts nfo ch rest st)
  from findMatches_literal_returns [OF "2.prems"] obtain ms where
    ms: "findMatches rx nfo opts = Some ms" by blast
  show ?case
  proof (cases "item_id nfo \<in> set (processedItems st)")
    case True
    with "2.IH"(1) "2.prems" show ?thesis
      by (simp add: searchItems.simps)
  next
    case False
    let ?st1 = "visitItem (FileSystemItem nfo ch) ms opts st"
    have "\<exists>st2. (case ch of None \<Rightarrow> Some ?st1 | Some cs \<Rightarrow> searchItems rx opts cs ?st1) = Some st2"
    proof (cases ch)
      case None
      then show ?thesis by simp
    next
      case (Some cs)
      with "2.IH"(2) [OF False ms Some "2.prems"] show ?thesis by simp
    qed
    then obtain st2 where
      st2: "(case ch of None \<Rightarrow> Some ?st1 | Some cs \<Rightarrow> searchItems rx opts cs ?st1) = Some st2"
      by blast
    from "2.IH"(3) [OF False ms st2 "2.prems"] False ms st2 show ?thesis
      by (simp add: searchItems.simps)
  qed
qed

subsection \<open>A pattern the platform rejects\<close>

lemma searchText_useRegex: "searchText (opts\<lparr>useRegex := b\<rparr>) = searchText opts"
  by (simp add: searchText_def)

lemma calculateScore_useRegex: "calculateScore nfo ms (opts\<lparr>useRegex := b\<rparr>) = calculateScore nfo ms opts"
  by (simp add: calculateScore_def)

lemma applyFilters_useRegex: "applyFilters nfo (opts\<lparr>useRegex := b\<rparr>) = applyFilters nfo opts"
  by (simp add: applyFilters_def)

lemma visitItem_useRegex: "visitItem it ms (opts\<lparr>useRegex := b\<rparr>) st = visitItem it ms opts st"
  by (simp add: visitItem_def calculateScore_useRegex)

lemma hashMatches_useRegex: "hashMatches nfo (opts\<lparr>useRegex := b\<rparr>) = hashMatches nfo opts"
  by (simp add: hashMatches_def)

lemma findMatches_invalid_regex:
  assumes "useRegex opts" and "compile rx (searchText opts) = None"
  shows "findMatches rx nfo opts = findMatches rx nfo (opts\<lparr>useRegex := False\<rparr>)"
  using assms
  by (simp add: findMatches_def findTextMatches_def searchText_useRegex hashMatches_useRegex)

lemma searchItems_invalid_regex:
  assumes "useRegex opts" and "compile rx (searchText opts) = None"
  shows "searchItems rx opts items st = searchItems rx (opts\<lparr>useRegex := False\<rparr>) items st"
  using assms
proof (induction rx opts items st rule: searchItems.induct)
  case (1 rx opts st)
  then show ?case by (simp add: searchItems.simps)
next
  case (2 rx opts nfo ch rest st)
  note fm = findMatches_invalid_regex [OF "2.prems", of nfo]
  show ?case
  proof (cases "item_id nfo \<in> set (processedItems st)")
    case True
    with "2.IH"(1) "2.prems" show ?thesis
      by (simp add: searchItems.simps)
  next
    case False
    show ?thesis
    proof (cases "findMatches rx nfo opts")
      case None
      with False fm show ?thesis
        by (simp add: searchItems.simps)
    next
      case (Some ms)
      let ?st1 = "visitItem (FileSystemItem nfo ch) ms opts st"
      have inner: "(case ch of None \<Rightarrow> Some ?st1 | Some cs \<Rightarrow> searchItems rx opts cs ?st1)
          = (case ch of None \<Rightarrow> Some ?st1
             | Some cs \<Rightarrow> searchItems rx (opts\<lparr>useRegex := False\<rparr>) cs ?st1)"
        using "2.IH"(2) [OF False Some _ "2.prems"] by (cases ch) simp_all
      show ?thesis
      proof (cases "case ch of None \<Rightarrow> Some ?st1 | Some cs \<Rightarrow> searchItems rx opts cs ?st1")
        case None
        with False Some fm inner show ?thesis
          by (simp add: searchItems.simps visitItem_useRegex cong: option.case_cong)
      next
        case st2: (Some st2)
        from "2.IH"(3) [OF False Some st2 "2.prems"] False Some fm inner st2 show ?thesis
          by (simp add: searchItems.simps visitItem_useRegex cong: option.case_cong)
      qed
    qed
  qed
qed

lemma searchFrom_invalid_regex:
  assumes "useRegex opts" and "compile rx (searchText opts) = None"
  shows "searchFrom rx opts items = searchFrom rx (opts\<lparr>useRegex := False\<rparr>) items"
  by (simp add: searchFrom_def searchItems_invalid_regex [OF assms] applyFilters_useRegex
      cong: option.case_cong)

lemma searchFrom_returns:
  assumes "\<not> useRegex opts \<or> compile rx (searchText opts) = None"
  shows "\<exists>out. searchFrom rx opts items = Some out"
proof -
  from searchItems_returns [OF assms] obtain st where
    "searchItems rx opts items \<lparr> processedItems = [], results = [] \<rparr> = Some st"
    by blast
  then show ?thesis
    by (simp add: searchFrom_def)
qed

text \<open>
  The \<^verbatim>\<open>catch\<close> block does what its comment says for the pattern it is handed. When
  the regex flag is set and the platform rejects the pattern (the query as
  \<^verbatim>\<open>findMatches\<close> passes it on: lower-cased unless the search is case-sensitive), the
  search does not throw or hang: every text is matched as by the literal branch, the
  call returns a result list, and the list is the one the scan of the tree yields with
  the regex flag off.
\<close>

lemma search_rejected_pattern_falls_back:
  assumes "useRegex opts" and "compile rx (searchText opts) = None"
  shows "(\<forall>s. findTextMatches rx s (searchText opts) (useRegex opts)
               = findTextMatches rx s (searchText opts) False)
    \<and> search rx items opts = searchFrom rx (opts\<lparr>useRegex := False\<rparr>) items
    \<and> (\<exists>out. search rx items opts = Some out)"
proof -
  from assms have a: "\<forall>s. findTextMatches rx s (searchText opts) (useRegex opts)
               = findTextMatches rx s (searchText opts) False"
    by (simp add: findTextMatches_def)
  from assms have b: "search rx items opts = searchFrom rx opts items"
    by (simp add: search_def)
  have c: "searchFrom rx opts items = searchFrom rx (opts\<lparr>useRegex := False\<rparr>) items"
    by (rule searchFrom_invalid_regex [OF assms])
  from assms have d: "\<exists>out. searchFrom rx opts items = Some out"
    by (simp add: searchFrom_returns)
  from a b c d show ?thesis
    by metis
qed

lemma search_rejected_pattern_example:
  "useRegex ((literalSearch ''(1'')\<lparr>useRegex := True\<rparr>)
   \<and> compile rejectingEngine (searchText ((literalSearch ''(1'')\<lparr>useRegex := True\<rparr>)) = None
   \<and> search rejectingEngine [parenFile] ((literalSearch ''(1'')\<lparr>useRegex := True\<rparr>)
       = searchFrom rejectingEngine
           ((literalSearch ''(1'')\<lparr>useRegex := True\<rparr>\<lparr>useRegex := False\<rparr>) [parenFile]
   \<and> map_option (map (\<lambda>r. (r_item r, length (r_matches r), r_score r)))
        (searchFrom rejectingEngine
           ((literalSearch ''(1'')\<lparr>useRegex := True\<rparr>\<lparr>useRegex := False\<rparr>) [parenFile])
       = Some [(parenFile, 2, 17)]"
proof -
  have u: "useRegex ((literalSearch ''(1'')\<lparr>useRegex := True\<rparr>)"
    by simp
  have c: "compile rejectingEngine (searchText ((literalSearch ''(1'')\<lparr>useRegex := True\<rparr>)) = None"
    by (simp add: rejectingEngine_def)
  have e: "map_option (map (\<lambda>r. (r_item r, length (r_matches r), r_score r)))
        (searchFrom rejectingEngine
           ((literalSearch ''(1'')\<lparr>useRegex := True\<rparr>\<lparr>useRegex := False\<rparr>) [parenFile])
       = Some [(parenFile, 2, 17)]"
    by code_simp
  from search_rejected_pattern_falls_back [OF u c, of "[parenFile]"] u c e show ?thesis
    by blast
qed

lemma kernelFile_built: "builtForest [kernelFile]"
  by (simp add: builtForest_def builtItem_def endsWith_def kernelFile_def exampleInfo_def)

lemma rangeEngine_patterns:
  "compile rangeEngine ''[a-Z]'' = None
   \<and> searchText (regexSearch ''[a-Z]'') = ''[a-z]''
   \<and> compile rangeEngine ''[a-z]'' = Some (CHR ''a'', CHR ''z'')"
  by code_simp

lemma search_range_insensitive:
  "map_option (map (\<lambda>r. (r_item r, length (r_matches r), r_score r)))
     (search rangeEngine [kernelFile] (regexSearch ''[a-Z]''))
   = Some [(kernelFile, 31, 202)]"
  by code_simp

lemma search_range_literal:
  "searchFrom rangeEngine ((regexSearch ''[a-Z]'')\<lparr>useRegex := False\<rparr>) [kernelFile] = Some []
   \<and> search rangeEngine [kernelFile] ((regexSearch ''[a-Z]'')\<lparr>caseSensitive := True\<rparr>) = Some []"
  by code_simp

text \<open>
  Claim C8 at the forest of the one file \<open>kernel32.dll\<close> and the query \<^verbatim>\<open>[a-Z]\<close>,
  searched with the regex flag set and without regard to case. The query is no valid
  regular expression: its range runs backwards. \<^verbatim>\<open>findMatches\<close> lower-cases it before
  \<^verbatim>\<open>findTextMatches\<close> compiles it, and \<^verbatim>\<open>[a-z]\<close> is valid: nothing is thrown, nothing
  is caught, and every letter of the name and of the path is a match (9 and 22 matches,
  score 202). Literal matching, which the claim asks for, finds nothing in this file; and
  the case-sensitive search, which hands the query over as it is, does fall back and
  finds nothing.
\<close>

theorem search_invalid_query_compiled_lowercased:
  "builtForest [kernelFile]
   \<and> compile rangeEngine ''[a-Z]'' = None
   \<and> searchText (regexSearch ''[a-Z]'') = ''[a-z]''
   \<and> compile rangeEngine ''[a-z]'' = Some (CHR ''a'', CHR ''z'')
   \<and> map_option (map (\<lambda>r. (r_item r, length (r_matches r), r_score r)))
        (search rangeEngine [kernelFile] (regexSearch ''[a-Z]''))
       = Some [(kernelFile, 31, 202)]
   \<and> searchFrom rangeEngine ((regexSearch ''[a-Z]'')\<lparr>useRegex := False\<rparr>) [kernelFile] = Some []
   \<and> search rangeEngine [kernelFile] ((regexSearch ''[a-Z]'')\<lparr>caseSensitive := True\<rparr>) = Some []"
  using kernelFile_built rangeEngine_patterns search_range_insensitive search_range_literal
  by blast

subsection \<open>Scores and ranking\<close>














subsection \<open>Results over a built forest\<close>





lemma preorder_children:
  "FileSystemItem nfo (Some cs) \<in> set (preorder items) \<Longrightarrow> set (preorder cs) \<subseteq> set (preorder items)"
  by (induction items rule: preorder.induct) auto

lemma preorder_single:
  "it \<in> set (preorder items) \<Longrightarrow> set (preorder [it]) \<subseteq> set (preorder items)"
proof (cases it)
  case (FileSystemItem nfo ch)
  assume m: "it \<in> set (preorder items)"
  show ?thesis
  proof (cases ch)
    case None
    with FileSystemItem m show ?thesis by simp
  next
    case (Some cs)
    with FileSystemItem m preorder_children [of nfo cs items] show ?thesis by simp
  qed
qed

lemma preorder_subset:
  "set xs \<subseteq> set (preorder items) \<Longrightarrow> set (preorder xs) \<subseteq> set (preorder items)"
proof (induction xs)
  case Nil
  then show ?case by simp
next
  case (Cons x xs)
  from Cons.prems have "x \<in> set (preorder items)" by simp
  from preorder_single [OF this] have a: "set (preorder [x]) \<subseteq> set (preorder items)" .
  from Cons have b: "set (preorder xs) \<subseteq> set (preorder items)" by simp
  have "preorder (x # xs) = preorder [x] @ preorder xs"
    using preorder_append [of "[x]" xs] by simp
  with a b show ?case by simp
qed

lemma preorder_self: "set xs \<subseteq> set (preorder xs)"
  by (induction xs rule: preorder.induct) auto

lemma builtForest_preorder: "builtForest items \<Longrightarrow> builtForest (preorder items)"
  using preorder_subset [OF subset_refl, of items]
  by (auto simp: builtForest_def list_all_iff)


















end
